theory Spec2Isabelle
  imports Main "HOL-Library.Word"
begin

unbundle bit_operations_syntax

section \<open>The TCG optimizer: data model\<close>

text \<open>
  The optimizer (the second document of \<^verbatim>\<open>src/block/win32-aio.c\<close>, QEMU's
  \<^verbatim>\<open>tcg/optimize.c\<close>) is embedded for a 64-bit host: \<^verbatim>\<open>TCGArg\<close> and
  \<^verbatim>\<open>tcg_target_ulong\<close> are 64-bit unsigned words, \<^verbatim>\<open>int\<close> is 32 bits and signed
  arithmetic wraps. Both the 32-bit and the 64-bit opcodes exist on such a host.
\<close>

type_synonym TCGArg = "64 word"

datatype error =
    Abort            \<comment> \<open>\<^verbatim>\<open>tcg_abort()\<close>\<close>
  | AssertFail       \<comment> \<open>a failed \<^verbatim>\<open>assert\<close>\<close>
  | UndefinedShift   \<comment> \<open>a shift whose count is not below the width of the shifted type\<close>
  | Diverged         \<comment> \<open>a \<^verbatim>\<open>for\<close> loop over \<^verbatim>\<open>next_copy\<close> that never comes back\<close>

datatype tcg_temp_state = TCG_TEMP_UNDEF | TCG_TEMP_CONST | TCG_TEMP_COPY

record tcg_temp_info =
  state :: tcg_temp_state
  prev_copy :: "16 word"
  next_copy :: "16 word"
  val :: TCGArg

datatype TCGType = TCG_TYPE_I32 | TCG_TYPE_I64

text \<open>The two fields of \<^verbatim>\<open>TCGTemp\<close> the optimizer reads through \<^verbatim>\<open>s->temps[i]\<close>.\<close>

record TCGTemp =
  type :: TCGType
  temp_local :: bool

record TCGContext =
  nb_temps :: nat
  nb_globals :: nat
  s_temps :: "TCGArg \<Rightarrow> TCGTemp"

text \<open>
  Modelled from the spec: the enumeration \<^verbatim>\<open>TCGOpcode\<close> is declared in a header that is
  not among the sources. The constructors are the opcodes the optimizer names; an opcode
  written \<^verbatim>\<open>CASE_OP_32_64(x)\<close> in the source is the constructor \<open>INDEX_op_x\<close> applied to
  the width, so \<open>INDEX_op_add i32\<close> is \<^verbatim>\<open>INDEX_op_add_i32\<close>. Every opcode the optimizer
  does not name is an \<open>INDEX_op_other\<close>.
\<close>

datatype width = i32 | i64

datatype TCGOpcode =
    INDEX_op_nop
  | INDEX_op_br
  | INDEX_op_call
  | INDEX_op_mov width
  | INDEX_op_movi width
  | INDEX_op_add width
  | INDEX_op_sub width
  | INDEX_op_mul width
  | INDEX_op_and width
  | INDEX_op_or width
  | INDEX_op_xor width
  | INDEX_op_shl width
  | INDEX_op_shr width
  | INDEX_op_sar width
  | INDEX_op_rotl width
  | INDEX_op_rotr width
  | INDEX_op_not width
  | INDEX_op_neg width
  | INDEX_op_andc width
  | INDEX_op_orc width
  | INDEX_op_eqv width
  | INDEX_op_nand width
  | INDEX_op_nor width
  | INDEX_op_ext8s width
  | INDEX_op_ext16s width
  | INDEX_op_ext8u width
  | INDEX_op_ext16u width
  | INDEX_op_ext32s_i64
  | INDEX_op_ext32u_i64
  | INDEX_op_deposit width
  | INDEX_op_setcond width
  | INDEX_op_brcond width
  | INDEX_op_movcond width
  | INDEX_op_add2_i32
  | INDEX_op_sub2_i32
  | INDEX_op_mulu2_i32
  | INDEX_op_brcond2_i32
  | INDEX_op_setcond2_i32
  | INDEX_op_other nat

text \<open>
  The fields of \<^verbatim>\<open>TCGOpDef\<close> the optimizer reads. The two flag bits it tests,
  \<^verbatim>\<open>def->flags & TCG_OPF_64BIT\<close> and \<^verbatim>\<open>def->flags & TCG_OPF_BB_END\<close>, are the two
  booleans. The table \<^verbatim>\<open>tcg_op_defs\<close> is an argument of the pass.
\<close>

record TCGOpDef =
  nb_oargs :: nat
  nb_iargs :: nat
  nb_args :: nat
  TCG_OPF_64BIT :: bool
  TCG_OPF_BB_END :: bool

type_synonym op_defs = "TCGOpcode \<Rightarrow> TCGOpDef"

definition op_bits :: "op_defs \<Rightarrow> TCGOpcode \<Rightarrow> nat" where
  "op_bits tcg_op_defs op = (if TCG_OPF_64BIT (tcg_op_defs op) then 64 else 32)"

definition op_to_movi :: "op_defs \<Rightarrow> TCGOpcode \<Rightarrow> error + TCGOpcode" where
  "op_to_movi tcg_op_defs op =
     (if op_bits tcg_op_defs op = 32 then Inr (INDEX_op_movi i32)
      else if op_bits tcg_op_defs op = 64 then Inr (INDEX_op_movi i64)
      else Inl Abort)"

definition op_to_mov :: "op_defs \<Rightarrow> TCGOpcode \<Rightarrow> error + TCGOpcode" where
  "op_to_mov tcg_op_defs op =
     (if op_bits tcg_op_defs op = 32 then Inr (INDEX_op_mov i32)
      else if op_bits tcg_op_defs op = 64 then Inr (INDEX_op_mov i64)
      else Inl Abort)"

section \<open>Constant folding\<close>

text \<open>
  C's shift operators on an unsigned type of the width of \<open>'a\<close>: the result is undefined
  when the count is not below the width, and the embedding makes that an error value.
  \<open>c_sar\<close> is \<^verbatim>\<open>>>\<close> on the signed type, an arithmetic shift on the hosts QEMU supports.
\<close>

definition c_shl :: "'a::len word \<Rightarrow> nat \<Rightarrow> error + 'a word" where
  "c_shl x n = (if n < LENGTH('a) then Inr (push_bit n x) else Inl UndefinedShift)"

definition c_shr :: "'a::len word \<Rightarrow> nat \<Rightarrow> error + 'a word" where
  "c_shr x n = (if n < LENGTH('a) then Inr (drop_bit n x) else Inl UndefinedShift)"

definition c_sar :: "'a::len word \<Rightarrow> nat \<Rightarrow> error + 'a word" where
  "c_sar x n = (if n < LENGTH('a) then Inr (signed_drop_bit n x) else Inl UndefinedShift)"

text \<open>\<^verbatim>\<open>a | b\<close> of two shift results; both operands are evaluated.\<close>

definition c_or :: "error + 'a::len word \<Rightarrow> error + 'a word \<Rightarrow> error + 'a word" where
  "c_or a b = (case a of Inl e \<Rightarrow> Inl e
               | Inr u \<Rightarrow> (case b of Inl e \<Rightarrow> Inl e | Inr v \<Rightarrow> Inr (u OR v)))"

text \<open>The conversion of a narrower result back to \<^verbatim>\<open>TCGArg\<close>: zero or sign extension.\<close>

definition widen_u :: "error + 'a::len word \<Rightarrow> error + TCGArg" where
  "widen_u r = (case r of Inl e \<Rightarrow> Inl e | Inr u \<Rightarrow> Inr (ucast u))"

definition widen_s :: "error + 'a::len word \<Rightarrow> error + TCGArg" where
  "widen_s r = (case r of Inl e \<Rightarrow> Inl e | Inr u \<Rightarrow> Inr (scast u))"

fun do_constant_folding_2 :: "TCGOpcode \<Rightarrow> TCGArg \<Rightarrow> TCGArg \<Rightarrow> error + TCGArg" where
  "do_constant_folding_2 (INDEX_op_add _) x y = Inr (x + y)"
| "do_constant_folding_2 (INDEX_op_sub _) x y = Inr (x - y)"
| "do_constant_folding_2 (INDEX_op_mul _) x y = Inr (x * y)"
| "do_constant_folding_2 (INDEX_op_and _) x y = Inr (x AND y)"
| "do_constant_folding_2 (INDEX_op_or _) x y = Inr (x OR y)"
| "do_constant_folding_2 (INDEX_op_xor _) x y = Inr (x XOR y)"
| "do_constant_folding_2 (INDEX_op_shl i32) x y =
     widen_u (c_shl (ucast x :: 32 word) (unat (ucast y :: 32 word)))"
| "do_constant_folding_2 (INDEX_op_shl i64) x y = c_shl x (unat y)"
| "do_constant_folding_2 (INDEX_op_shr i32) x y =
     widen_u (c_shr (ucast x :: 32 word) (unat (ucast y :: 32 word)))"
| "do_constant_folding_2 (INDEX_op_shr i64) x y = c_shr x (unat y)"
| "do_constant_folding_2 (INDEX_op_sar i32) x y =
     widen_s (c_sar (ucast x :: 32 word) (unat (ucast y :: 32 word)))"
| "do_constant_folding_2 (INDEX_op_sar i64) x y = c_sar x (unat y)"
| "do_constant_folding_2 (INDEX_op_rotr i32) x y =
     widen_u (c_or (c_shl (ucast x :: 32 word) (unat (32 - y)))
                   (c_shr (ucast x :: 32 word) (unat y)))"
| "do_constant_folding_2 (INDEX_op_rotr i64) x y =
     c_or (c_shl x (unat (64 - y))) (c_shr x (unat y))"
| "do_constant_folding_2 (INDEX_op_rotl i32) x y =
     widen_u (c_or (c_shl (ucast x :: 32 word) (unat y))
                   (c_shr (ucast x :: 32 word) (unat (32 - y))))"
| "do_constant_folding_2 (INDEX_op_rotl i64) x y =
     c_or (c_shl x (unat y)) (c_shr x (unat (64 - y)))"
| "do_constant_folding_2 (INDEX_op_not _) x y = Inr (NOT x)"
| "do_constant_folding_2 (INDEX_op_neg _) x y = Inr (- x)"
| "do_constant_folding_2 (INDEX_op_andc _) x y = Inr (x AND NOT y)"
| "do_constant_folding_2 (INDEX_op_orc _) x y = Inr (x OR NOT y)"
| "do_constant_folding_2 (INDEX_op_eqv _) x y = Inr (NOT (x XOR y))"
| "do_constant_folding_2 (INDEX_op_nand _) x y = Inr (NOT (x AND y))"
| "do_constant_folding_2 (INDEX_op_nor _) x y = Inr (NOT (x OR y))"
| "do_constant_folding_2 (INDEX_op_ext8s _) x y = Inr (scast (ucast x :: 8 word))"
| "do_constant_folding_2 (INDEX_op_ext16s _) x y = Inr (scast (ucast x :: 16 word))"
| "do_constant_folding_2 (INDEX_op_ext8u _) x y = Inr (ucast (ucast x :: 8 word))"
| "do_constant_folding_2 (INDEX_op_ext16u _) x y = Inr (ucast (ucast x :: 16 word))"
| "do_constant_folding_2 INDEX_op_ext32s_i64 x y = Inr (scast (ucast x :: 32 word))"
| "do_constant_folding_2 INDEX_op_ext32u_i64 x y = Inr (ucast (ucast x :: 32 word))"
| "do_constant_folding_2 _ x y = Inl Abort"

definition do_constant_folding :: "op_defs \<Rightarrow> TCGOpcode \<Rightarrow> TCGArg \<Rightarrow> TCGArg \<Rightarrow> error + TCGArg" where
  "do_constant_folding tcg_op_defs op x y =
     (case do_constant_folding_2 op x y of
        Inl e \<Rightarrow> Inl e
      | Inr res \<Rightarrow> Inr (if op_bits tcg_op_defs op = 32 then res AND 0xffffffff else res))"


section \<open>Comparison predicates\<close>

text \<open>
  Modelled from the spec: the enumeration \<^verbatim>\<open>TCGCond\<close> and the helpers
  \<^verbatim>\<open>tcg_swap_cond\<close> and \<^verbatim>\<open>tcg_invert_cond\<close> are declared in a header that is not
  among the sources. The ten predicates are those of section 4.D; a predicate travels
  in the argument stream as a \<^verbatim>\<open>TCGArg\<close>, here its position in that list. Swapping
  exchanges \<open>LT\<close> with \<open>GT\<close> and \<open>LE\<close> with \<open>GE\<close> (signed and unsigned) and leaves
  \<open>EQ\<close> and \<open>NE\<close>; inverting negates the predicate. A word that is no predicate
  is \<open>None\<close>, the \<^verbatim>\<open>default\<close> branch of every \<^verbatim>\<open>switch (c)\<close>.
\<close>

datatype TCGCond =
    TCG_COND_EQ | TCG_COND_NE
  | TCG_COND_LT | TCG_COND_GE | TCG_COND_LE | TCG_COND_GT
  | TCG_COND_LTU | TCG_COND_GEU | TCG_COND_LEU | TCG_COND_GTU

fun cond_arg :: "TCGCond \<Rightarrow> TCGArg" where
  "cond_arg TCG_COND_EQ = 0"
| "cond_arg TCG_COND_NE = 1"
| "cond_arg TCG_COND_LT = 2"
| "cond_arg TCG_COND_GE = 3"
| "cond_arg TCG_COND_LE = 4"
| "cond_arg TCG_COND_GT = 5"
| "cond_arg TCG_COND_LTU = 6"
| "cond_arg TCG_COND_GEU = 7"
| "cond_arg TCG_COND_LEU = 8"
| "cond_arg TCG_COND_GTU = 9"

definition arg_cond :: "TCGArg \<Rightarrow> TCGCond option" where
  "arg_cond a =
     (if a = 0 then Some TCG_COND_EQ else if a = 1 then Some TCG_COND_NE
      else if a = 2 then Some TCG_COND_LT else if a = 3 then Some TCG_COND_GE
      else if a = 4 then Some TCG_COND_LE else if a = 5 then Some TCG_COND_GT
      else if a = 6 then Some TCG_COND_LTU else if a = 7 then Some TCG_COND_GEU
      else if a = 8 then Some TCG_COND_LEU else if a = 9 then Some TCG_COND_GTU
      else None)"

fun swap_cond :: "TCGCond \<Rightarrow> TCGCond" where
  "swap_cond TCG_COND_EQ = TCG_COND_EQ"
| "swap_cond TCG_COND_NE = TCG_COND_NE"
| "swap_cond TCG_COND_LT = TCG_COND_GT"
| "swap_cond TCG_COND_GE = TCG_COND_LE"
| "swap_cond TCG_COND_LE = TCG_COND_GE"
| "swap_cond TCG_COND_GT = TCG_COND_LT"
| "swap_cond TCG_COND_LTU = TCG_COND_GTU"
| "swap_cond TCG_COND_GEU = TCG_COND_LEU"
| "swap_cond TCG_COND_LEU = TCG_COND_GEU"
| "swap_cond TCG_COND_GTU = TCG_COND_LTU"

fun invert_cond :: "TCGCond \<Rightarrow> TCGCond" where
  "invert_cond TCG_COND_EQ = TCG_COND_NE"
| "invert_cond TCG_COND_NE = TCG_COND_EQ"
| "invert_cond TCG_COND_LT = TCG_COND_GE"
| "invert_cond TCG_COND_GE = TCG_COND_LT"
| "invert_cond TCG_COND_LE = TCG_COND_GT"
| "invert_cond TCG_COND_GT = TCG_COND_LE"
| "invert_cond TCG_COND_LTU = TCG_COND_GEU"
| "invert_cond TCG_COND_GEU = TCG_COND_LTU"
| "invert_cond TCG_COND_LEU = TCG_COND_GTU"
| "invert_cond TCG_COND_GTU = TCG_COND_LEU"

definition tcg_swap_cond :: "TCGArg \<Rightarrow> TCGArg" where
  "tcg_swap_cond a = (case arg_cond a of Some c \<Rightarrow> cond_arg (swap_cond c) | None \<Rightarrow> a)"

definition tcg_invert_cond :: "TCGArg \<Rightarrow> TCGArg" where
  "tcg_invert_cond a = (case arg_cond a of Some c \<Rightarrow> cond_arg (invert_cond c) | None \<Rightarrow> a)"

fun do_constant_folding_cond_32 :: "32 word \<Rightarrow> 32 word \<Rightarrow> TCGCond option \<Rightarrow> error + bool" where
  "do_constant_folding_cond_32 x y (Some TCG_COND_EQ) = Inr (x = y)"
| "do_constant_folding_cond_32 x y (Some TCG_COND_NE) = Inr (x \<noteq> y)"
| "do_constant_folding_cond_32 x y (Some TCG_COND_LT) = Inr (sint x < sint y)"
| "do_constant_folding_cond_32 x y (Some TCG_COND_GE) = Inr (sint x \<ge> sint y)"
| "do_constant_folding_cond_32 x y (Some TCG_COND_LE) = Inr (sint x \<le> sint y)"
| "do_constant_folding_cond_32 x y (Some TCG_COND_GT) = Inr (sint x > sint y)"
| "do_constant_folding_cond_32 x y (Some TCG_COND_LTU) = Inr (x < y)"
| "do_constant_folding_cond_32 x y (Some TCG_COND_GEU) = Inr (x \<ge> y)"
| "do_constant_folding_cond_32 x y (Some TCG_COND_LEU) = Inr (x \<le> y)"
| "do_constant_folding_cond_32 x y (Some TCG_COND_GTU) = Inr (x > y)"
| "do_constant_folding_cond_32 x y None = Inl Abort"

fun do_constant_folding_cond_64 :: "64 word \<Rightarrow> 64 word \<Rightarrow> TCGCond option \<Rightarrow> error + bool" where
  "do_constant_folding_cond_64 x y (Some TCG_COND_EQ) = Inr (x = y)"
| "do_constant_folding_cond_64 x y (Some TCG_COND_NE) = Inr (x \<noteq> y)"
| "do_constant_folding_cond_64 x y (Some TCG_COND_LT) = Inr (sint x < sint y)"
| "do_constant_folding_cond_64 x y (Some TCG_COND_GE) = Inr (sint x \<ge> sint y)"
| "do_constant_folding_cond_64 x y (Some TCG_COND_LE) = Inr (sint x \<le> sint y)"
| "do_constant_folding_cond_64 x y (Some TCG_COND_GT) = Inr (sint x > sint y)"
| "do_constant_folding_cond_64 x y (Some TCG_COND_LTU) = Inr (x < y)"
| "do_constant_folding_cond_64 x y (Some TCG_COND_GEU) = Inr (x \<ge> y)"
| "do_constant_folding_cond_64 x y (Some TCG_COND_LEU) = Inr (x \<le> y)"
| "do_constant_folding_cond_64 x y (Some TCG_COND_GTU) = Inr (x > y)"
| "do_constant_folding_cond_64 x y None = Inl Abort"

fun do_constant_folding_cond_eq :: "TCGCond option \<Rightarrow> error + bool" where
  "do_constant_folding_cond_eq (Some TCG_COND_GT) = Inr False"
| "do_constant_folding_cond_eq (Some TCG_COND_LTU) = Inr False"
| "do_constant_folding_cond_eq (Some TCG_COND_LT) = Inr False"
| "do_constant_folding_cond_eq (Some TCG_COND_GTU) = Inr False"
| "do_constant_folding_cond_eq (Some TCG_COND_NE) = Inr False"
| "do_constant_folding_cond_eq (Some TCG_COND_GE) = Inr True"
| "do_constant_folding_cond_eq (Some TCG_COND_GEU) = Inr True"
| "do_constant_folding_cond_eq (Some TCG_COND_LE) = Inr True"
| "do_constant_folding_cond_eq (Some TCG_COND_LEU) = Inr True"
| "do_constant_folding_cond_eq (Some TCG_COND_EQ) = Inr True"
| "do_constant_folding_cond_eq None = Inl Abort"

section \<open>The table of temp states\<close>

text \<open>
  The static array \<^verbatim>\<open>temps[TCG_MAX_TEMPS]\<close>, indexed by a \<^verbatim>\<open>TCGArg\<close>. The links
  \<^verbatim>\<open>prev_copy\<close> and \<^verbatim>\<open>next_copy\<close> are \<^verbatim>\<open>uint16_t\<close>: storing a temp truncates it, and
  following a link widens it again.
\<close>

type_synonym temps_tab = "TCGArg \<Rightarrow> tcg_temp_info"

definition next_of :: "temps_tab \<Rightarrow> TCGArg \<Rightarrow> TCGArg" where
  "next_of tab t = ucast (next_copy (tab t))"

definition prev_of :: "temps_tab \<Rightarrow> TCGArg \<Rightarrow> TCGArg" where
  "prev_of tab t = ucast (prev_copy (tab t))"

definition set_state :: "temps_tab \<Rightarrow> TCGArg \<Rightarrow> tcg_temp_state \<Rightarrow> temps_tab" where
  "set_state tab t v = tab(t := (tab t)\<lparr>state := v\<rparr>)"

definition set_prev :: "temps_tab \<Rightarrow> TCGArg \<Rightarrow> 16 word \<Rightarrow> temps_tab" where
  "set_prev tab t v = tab(t := (tab t)\<lparr>prev_copy := v\<rparr>)"

definition set_next :: "temps_tab \<Rightarrow> TCGArg \<Rightarrow> 16 word \<Rightarrow> temps_tab" where
  "set_next tab t v = tab(t := (tab t)\<lparr>next_copy := v\<rparr>)"

definition set_val :: "temps_tab \<Rightarrow> TCGArg \<Rightarrow> TCGArg \<Rightarrow> temps_tab" where
  "set_val tab t v = tab(t := (tab t)\<lparr>val := v\<rparr>)"

text \<open>\<^verbatim>\<open>memset(temps, 0, nb_temps * sizeof(struct tcg_temp_info))\<close>.\<close>

definition memset_temps :: "nat \<Rightarrow> temps_tab \<Rightarrow> temps_tab" where
  "memset_temps n tab =
     (\<lambda>t. if unat t < n
          then \<lparr>state = TCG_TEMP_UNDEF, prev_copy = 0, next_copy = 0, val = 0\<rparr>
          else tab t)"

definition reset_temp :: "temps_tab \<Rightarrow> TCGArg \<Rightarrow> temps_tab" where
  "reset_temp tab temp =
     (let tab1 =
        (if state (tab temp) = TCG_TEMP_COPY then
           (if prev_copy (tab temp) = next_copy (tab temp) then
              set_state tab (next_of tab temp) TCG_TEMP_UNDEF
            else
              (let tab' = set_prev tab (next_of tab temp) (prev_copy (tab temp))
               in set_next tab' (prev_of tab' temp) (next_copy (tab' temp))))
         else tab)
      in set_state tab1 temp TCG_TEMP_UNDEF)"

text \<open>
  The loop \<^verbatim>\<open>for (i = temps[temp].next_copy; i != temp; i = temps[i].next_copy)\<close> that
  \<^verbatim>\<open>find_better_copy\<close> (twice) and \<^verbatim>\<open>temps_are_copies\<close> run, with the link
  \<^verbatim>\<open>temps[i].next_copy\<close> as \<open>nxt i\<close> and the test of its body as \<open>P\<close>:
  \<open>Some (Some i)\<close> is the \<^verbatim>\<open>return\<close> from inside the loop at \<open>i\<close>, \<open>Some None\<close> the
  normal exit, and \<open>None\<close> a walk that never meets \<open>temp\<close> again.
\<close>

partial_function (option) copy_loop ::
    "(TCGArg \<Rightarrow> TCGArg) \<Rightarrow> (TCGArg \<Rightarrow> bool) \<Rightarrow> TCGArg \<Rightarrow> TCGArg \<Rightarrow> TCGArg option option" where
  "copy_loop nxt P temp i =
     (if i = temp then Some None
      else if P i then Some (Some i)
      else copy_loop nxt P temp (nxt i))"

definition find_better_copy :: "TCGContext \<Rightarrow> temps_tab \<Rightarrow> TCGArg \<Rightarrow> error + TCGArg" where
  "find_better_copy s tab temp =
     (if unat temp < nb_globals s then Inr temp
      else case copy_loop (next_of tab) (\<lambda>i. unat i < nb_globals s) temp (next_of tab temp) of
        None \<Rightarrow> Inl Diverged
      | Some (Some i) \<Rightarrow> Inr i
      | Some None \<Rightarrow>
          (if \<not> temp_local (s_temps s temp) then
             (case copy_loop (next_of tab) (\<lambda>i. temp_local (s_temps s i)) temp (next_of tab temp) of
                None \<Rightarrow> Inl Diverged
              | Some (Some i) \<Rightarrow> Inr i
              | Some None \<Rightarrow> Inr temp)
           else Inr temp))"

definition temps_are_copies :: "temps_tab \<Rightarrow> TCGArg \<Rightarrow> TCGArg \<Rightarrow> error + bool" where
  "temps_are_copies tab arg1 arg2 =
     (if arg1 = arg2 then Inr True
      else if state (tab arg1) \<noteq> TCG_TEMP_COPY \<or> state (tab arg2) \<noteq> TCG_TEMP_COPY
        then Inr False
      else case copy_loop (next_of tab) (\<lambda>i. i = arg2) arg1 (next_of tab arg1) of
        None \<Rightarrow> Inl Diverged
      | Some (Some i) \<Rightarrow> Inr True
      | Some None \<Rightarrow> Inr False)"


section \<open>The state of the pass\<close>

text \<open>
  \<^verbatim>\<open>tcg_constant_folding\<close> works on the static table \<open>temps\<close>, on the opcode buffer
  \<^verbatim>\<open>gen_opc_buf\<close>, and on one argument buffer: \<^verbatim>\<open>gen_args = args\<close> at entry, so the
  read pointer \<open>args\<close> and the write pointer \<open>gen_args\<close> are two cursors into the same
  memory \<open>args_buf\<close>, and every write through \<^verbatim>\<open>gen_args\<close> is a write the later reads
  through \<^verbatim>\<open>args\<close> can see. Pointer offsets are \<^verbatim>\<open>int\<close>s and may be negative, so the
  buffer is indexed by integers.
\<close>

record opt_state =
  temps :: temps_tab
  gen_opc_buf :: "nat \<Rightarrow> TCGOpcode"
  args_buf :: "int \<Rightarrow> TCGArg"
  args :: int
  gen_args :: int
  op_index :: nat

definition arg :: "opt_state \<Rightarrow> int \<Rightarrow> TCGArg" where
  "arg st i = args_buf st (args st + i)"

definition set_arg :: "opt_state \<Rightarrow> int \<Rightarrow> TCGArg \<Rightarrow> opt_state" where
  "set_arg st i v = st\<lparr>args_buf := (args_buf st)(args st + i := v)\<rparr>"

definition set_gen_arg :: "opt_state \<Rightarrow> int \<Rightarrow> TCGArg \<Rightarrow> opt_state" where
  "set_gen_arg st i v = st\<lparr>args_buf := (args_buf st)(gen_args st + i := v)\<rparr>"

definition set_opc :: "opt_state \<Rightarrow> TCGOpcode \<Rightarrow> opt_state" where
  "set_opc st op = st\<lparr>gen_opc_buf := (gen_opc_buf st)(op_index st := op)\<rparr>"

text \<open>\<^verbatim>\<open>args += a; gen_args += g\<close>.\<close>

definition advance :: "opt_state \<Rightarrow> int \<Rightarrow> int \<Rightarrow> opt_state" where
  "advance st a g = st\<lparr>args := args st + a, gen_args := gen_args st + g\<rparr>"

definition ebind :: "error + 'a \<Rightarrow> ('a \<Rightarrow> error + 'b) \<Rightarrow> error + 'b" where
  "ebind m f = (case m of Inl e \<Rightarrow> Inl e | Inr x \<Rightarrow> f x)"

text \<open>
  \<^verbatim>\<open>tcg_opt_gen_mov(s, &gen_args[g], dst, src)\<close> and
  \<^verbatim>\<open>tcg_opt_gen_movi(&gen_args[g], dst, val)\<close>. The statements of the source run in
  order, each on the table the previous one left.
\<close>

definition tcg_opt_gen_mov ::
    "TCGContext \<Rightarrow> opt_state \<Rightarrow> int \<Rightarrow> TCGArg \<Rightarrow> TCGArg \<Rightarrow> error + opt_state" where
  "tcg_opt_gen_mov s st g dst src =
     (let t1 = reset_temp (temps st) dst in
      if state (t1 src) = TCG_TEMP_CONST then Inl AssertFail
      else
        (let t7 =
           (if type (s_temps s src) = type (s_temps s dst) then
              (let t2 = (if state (t1 src) \<noteq> TCG_TEMP_COPY
                         then set_prev (set_next (set_state t1 src TCG_TEMP_COPY)
                                src (ucast src)) src (ucast src)
                         else t1);
                   t3 = set_state t2 dst TCG_TEMP_COPY;
                   t4 = set_next t3 dst (next_copy (t3 src));
                   t5 = set_prev t4 dst (ucast src);
                   t6 = set_prev t5 (next_of t5 dst) (ucast dst)
               in set_next t6 src (ucast dst))
            else t1)
         in Inr (set_gen_arg (set_gen_arg (st\<lparr>temps := t7\<rparr>) g dst) (g + 1) src)))"

definition tcg_opt_gen_movi :: "opt_state \<Rightarrow> int \<Rightarrow> TCGArg \<Rightarrow> TCGArg \<Rightarrow> opt_state" where
  "tcg_opt_gen_movi st g dst v =
     (let t1 = reset_temp (temps st) dst;
          t2 = set_state t1 dst TCG_TEMP_CONST;
          t3 = set_val t2 dst v
      in set_gen_arg (set_gen_arg (st\<lparr>temps := t3\<rparr>) g dst) (g + 1) v)"

text \<open>The result of a comparison as the \<^verbatim>\<open>TCGArg\<close> the callers test: 0, 1, or 2.\<close>

definition bool_arg :: "error + bool \<Rightarrow> error + TCGArg" where
  "bool_arg r = (case r of Inl e \<Rightarrow> Inl e | Inr b \<Rightarrow> Inr (if b then 1 else 0))"

definition do_constant_folding_cond ::
    "op_defs \<Rightarrow> temps_tab \<Rightarrow> TCGOpcode \<Rightarrow> TCGArg \<Rightarrow> TCGArg \<Rightarrow> TCGArg \<Rightarrow> error + TCGArg" where
  "do_constant_folding_cond tcg_op_defs tab op x y c =
     (if state (tab x) = TCG_TEMP_CONST \<and> state (tab y) = TCG_TEMP_CONST then
        (if op_bits tcg_op_defs op = 32
           then bool_arg (do_constant_folding_cond_32 (ucast (val (tab x))) (ucast (val (tab y)))
                  (arg_cond c))
         else if op_bits tcg_op_defs op = 64
           then bool_arg (do_constant_folding_cond_64 (val (tab x)) (val (tab y)) (arg_cond c))
         else Inl Abort)
      else ebind (temps_are_copies tab x y) (\<lambda>copies.
        if copies then bool_arg (do_constant_folding_cond_eq (arg_cond c))
        else if state (tab y) = TCG_TEMP_CONST \<and> val (tab y) = 0 then
          (case arg_cond c of
             Some TCG_COND_LTU \<Rightarrow> Inr 0
           | Some TCG_COND_GEU \<Rightarrow> Inr 1
           | _ \<Rightarrow> Inr 2)
        else Inr 2))"

text \<open>\<^verbatim>\<open>((uint64_t)hi << 32) | (uint32_t)lo\<close>.\<close>

definition compose64 :: "TCGArg \<Rightarrow> TCGArg \<Rightarrow> 64 word" where
  "compose64 hi lo = push_bit 32 hi OR ucast (ucast lo :: 32 word)"

definition do_constant_folding_cond2 ::
    "temps_tab \<Rightarrow> TCGArg \<Rightarrow> TCGArg \<Rightarrow> TCGArg \<Rightarrow> TCGArg \<Rightarrow> TCGArg \<Rightarrow> error + TCGArg" where
  "do_constant_folding_cond2 tab al ah bl bh c =
     (let both_copies =
        ebind (temps_are_copies tab al bl) (\<lambda>c1.
          if c1 then
            ebind (temps_are_copies tab ah bh) (\<lambda>c2.
              if c2 then bool_arg (do_constant_folding_cond_eq (arg_cond c)) else Inr 2)
          else Inr 2)
      in
      if state (tab bl) = TCG_TEMP_CONST \<and> state (tab bh) = TCG_TEMP_CONST then
        (let b = compose64 (val (tab bh)) (val (tab bl)) in
         if state (tab al) = TCG_TEMP_CONST \<and> state (tab ah) = TCG_TEMP_CONST then
           bool_arg (do_constant_folding_cond_64
                       (compose64 (val (tab ah)) (val (tab al))) b (arg_cond c))
         else if b = 0 \<and> arg_cond c = Some TCG_COND_LTU then Inr 0
         else if b = 0 \<and> arg_cond c = Some TCG_COND_GEU then Inr 1
         else both_copies)
      else both_copies)"

text \<open>
  \<^verbatim>\<open>swap_commutative(dest, &args[i1], &args[i2])\<close> and
  \<^verbatim>\<open>swap_commutative2(&args[i1], &args[i2])\<close>: the state with the arguments exchanged or
  not, and the boolean returned.
\<close>

definition is_const :: "opt_state \<Rightarrow> TCGArg \<Rightarrow> int" where
  "is_const st t = (if state (temps st t) = TCG_TEMP_CONST then 1 else 0)"

definition swap_commutative :: "opt_state \<Rightarrow> TCGArg \<Rightarrow> int \<Rightarrow> int \<Rightarrow> opt_state \<times> bool" where
  "swap_commutative st dest i1 i2 =
     (let a1 = arg st i1; a2 = arg st i2;
          sum = is_const st a1 - is_const st a2
      in if sum > 0 \<or> (sum = 0 \<and> dest = a2)
         then (set_arg (set_arg st i1 a2) i2 a1, True)
         else (st, False))"

definition swap_commutative2 :: "opt_state \<Rightarrow> int \<Rightarrow> int \<Rightarrow> opt_state \<times> bool" where
  "swap_commutative2 st i1 i2 =
     (let sum = is_const st (arg st i1) + is_const st (arg st (i1 + 1))
                - is_const st (arg st i2) - is_const st (arg st (i2 + 1))
      in if sum > 0
         then (let t = arg st i1;
                   st1 = set_arg st i1 (arg st i2);
                   st2 = set_arg st1 i2 t;
                   t' = arg st2 (i1 + 1);
                   st3 = set_arg st2 (i1 + 1) (arg st2 (i2 + 1))
               in (set_arg st3 (i2 + 1) t', True))
         else (st, False))"


section \<open>The driver, one operation at a time\<close>

text \<open>
  Modelled from the spec: the two flag bits of a call that the driver tests are
  declared in a header that is not among the sources; the driver only asks whether
  the flag word has one of them.
\<close>

definition TCG_CALL_NO_READ_GLOBALS :: TCGArg where
  "TCG_CALL_NO_READ_GLOBALS = 0x0010"

definition TCG_CALL_NO_WRITE_GLOBALS :: TCGArg where
  "TCG_CALL_NO_WRITE_GLOBALS = 0x0020"

subsection \<open>Copy propagation\<close>

text \<open>
  The body of both loops of the first phase, over the offsets \<open>is\<close> of the input
  arguments: \<^verbatim>\<open>if (temps[args[i]].state == TCG_TEMP_COPY) args[i] = find_better_copy(s, args[i])\<close>.
\<close>

fun propagate_copies :: "TCGContext \<Rightarrow> opt_state \<Rightarrow> int list \<Rightarrow> error + opt_state" where
  "propagate_copies s st [] = Inr st"
| "propagate_copies s st (i # is) =
     (if state (temps st (arg st i)) = TCG_TEMP_COPY
      then ebind (find_better_copy s (temps st) (arg st i))
             (\<lambda>better. propagate_copies s (set_arg st i better) is)
      else propagate_copies s st is)"

text \<open>
  For a call, \<^verbatim>\<open>int nb_oargs = args[0] >> 16\<close> and \<^verbatim>\<open>int nb_iargs = args[0] & 0xffff\<close>,
  and \<open>i\<close> runs from \<^verbatim>\<open>nb_oargs + 1\<close> while \<^verbatim>\<open>i < nb_oargs + nb_iargs + 1\<close>, all in
  \<^verbatim>\<open>int\<close>.
\<close>

definition call_nb_oargs :: "TCGArg \<Rightarrow> 32 word" where
  "call_nb_oargs a0 = ucast (drop_bit 16 a0)"

definition call_nb_iargs :: "TCGArg \<Rightarrow> 32 word" where
  "call_nb_iargs a0 = ucast (a0 AND 0xffff)"

definition copy_propagation ::
    "TCGContext \<Rightarrow> op_defs \<Rightarrow> TCGOpcode \<Rightarrow> opt_state \<Rightarrow> error + opt_state" where
  "copy_propagation s tcg_op_defs op st =
     (if op = INDEX_op_call then
        propagate_copies s st
          [sint (call_nb_oargs (arg st 0) + 1) ..
           sint (call_nb_oargs (arg st 0) + call_nb_iargs (arg st 0) + 1) - 1]
      else
        propagate_copies s st
          (map int [nb_oargs (tcg_op_defs op) ..<
                    nb_oargs (tcg_op_defs op) + nb_iargs (tcg_op_defs op)]))"

subsection \<open>Constants to the right\<close>

fun canonicalize :: "TCGOpcode \<Rightarrow> opt_state \<Rightarrow> opt_state" where
  "canonicalize (INDEX_op_add _) st = fst (swap_commutative st (arg st 0) 1 2)"
| "canonicalize (INDEX_op_mul _) st = fst (swap_commutative st (arg st 0) 1 2)"
| "canonicalize (INDEX_op_and _) st = fst (swap_commutative st (arg st 0) 1 2)"
| "canonicalize (INDEX_op_or _) st = fst (swap_commutative st (arg st 0) 1 2)"
| "canonicalize (INDEX_op_xor _) st = fst (swap_commutative st (arg st 0) 1 2)"
| "canonicalize (INDEX_op_eqv _) st = fst (swap_commutative st (arg st 0) 1 2)"
| "canonicalize (INDEX_op_nand _) st = fst (swap_commutative st (arg st 0) 1 2)"
| "canonicalize (INDEX_op_nor _) st = fst (swap_commutative st (arg st 0) 1 2)"
| "canonicalize (INDEX_op_brcond _) st =
     (case swap_commutative st (- 1) 0 1 of
        (st1, swapped) \<Rightarrow> if swapped then set_arg st1 2 (tcg_swap_cond (arg st1 2)) else st1)"
| "canonicalize (INDEX_op_setcond _) st =
     (case swap_commutative st (arg st 0) 1 2 of
        (st1, swapped) \<Rightarrow> if swapped then set_arg st1 3 (tcg_swap_cond (arg st1 3)) else st1)"
| "canonicalize (INDEX_op_movcond _) st =
     (case swap_commutative st (- 1) 1 2 of
        (st1, swapped) \<Rightarrow>
          (let st2 = (if swapped then set_arg st1 5 (tcg_swap_cond (arg st1 5)) else st1)
           in case swap_commutative st2 (arg st2 0) 4 3 of
                (st3, swapped') \<Rightarrow>
                  if swapped' then set_arg st3 5 (tcg_invert_cond (arg st3 5)) else st3))"
| "canonicalize INDEX_op_add2_i32 st =
     (let st1 = fst (swap_commutative st (arg st 0) 2 4)
      in fst (swap_commutative st1 (arg st1 1) 3 5))"
| "canonicalize INDEX_op_mulu2_i32 st = fst (swap_commutative st (arg st 0) 2 3)"
| "canonicalize INDEX_op_brcond2_i32 st =
     (case swap_commutative2 st 0 2 of
        (st1, swapped) \<Rightarrow> if swapped then set_arg st1 4 (tcg_swap_cond (arg st1 4)) else st1)"
| "canonicalize INDEX_op_setcond2_i32 st =
     (case swap_commutative2 st 1 3 of
        (st1, swapped) \<Rightarrow> if swapped then set_arg st1 5 (tcg_swap_cond (arg st1 5)) else st1)"
| "canonicalize _ st = st"

subsection \<open>The five simplifications\<close>

text \<open>
  Each of the five \<^verbatim>\<open>switch\<close> statements that follow either finishes the operation
  (\<^verbatim>\<open>continue\<close>: \<open>Some\<close> of the outcome) or falls through to the next (\<open>None\<close>).
\<close>

fun is_shift_rot :: "TCGOpcode \<Rightarrow> bool" where
  "is_shift_rot (INDEX_op_shl _) = True"
| "is_shift_rot (INDEX_op_shr _) = True"
| "is_shift_rot (INDEX_op_sar _) = True"
| "is_shift_rot (INDEX_op_rotl _) = True"
| "is_shift_rot (INDEX_op_rotr _) = True"
| "is_shift_rot _ = False"

fun is_mov_zero_op :: "TCGOpcode \<Rightarrow> bool" where
  "is_mov_zero_op (INDEX_op_add _) = True"
| "is_mov_zero_op (INDEX_op_sub _) = True"
| "is_mov_zero_op (INDEX_op_shl _) = True"
| "is_mov_zero_op (INDEX_op_shr _) = True"
| "is_mov_zero_op (INDEX_op_sar _) = True"
| "is_mov_zero_op (INDEX_op_rotl _) = True"
| "is_mov_zero_op (INDEX_op_rotr _) = True"
| "is_mov_zero_op (INDEX_op_or _) = True"
| "is_mov_zero_op (INDEX_op_xor _) = True"
| "is_mov_zero_op _ = False"

fun is_and_mul :: "TCGOpcode \<Rightarrow> bool" where
  "is_and_mul (INDEX_op_and _) = True"
| "is_and_mul (INDEX_op_mul _) = True"
| "is_and_mul _ = False"

fun is_or_and :: "TCGOpcode \<Rightarrow> bool" where
  "is_or_and (INDEX_op_or _) = True"
| "is_or_and (INDEX_op_and _) = True"
| "is_or_and _ = False"

fun is_sub_xor :: "TCGOpcode \<Rightarrow> bool" where
  "is_sub_xor (INDEX_op_sub _) = True"
| "is_sub_xor (INDEX_op_xor _) = True"
| "is_sub_xor _ = False"

definition is_const_zero :: "opt_state \<Rightarrow> TCGArg \<Rightarrow> bool" where
  "is_const_zero st t \<longleftrightarrow> state (temps st t) = TCG_TEMP_CONST \<and> val (temps st t) = 0"

text \<open>
  \<^verbatim>\<open>gen_opc_buf[op_index] = op_to_movi(op); tcg_opt_gen_movi(gen_args, args[0], v);\<close>
  followed by \<^verbatim>\<open>args += n; gen_args += 2\<close>.
\<close>

definition emit_movi :: "op_defs \<Rightarrow> TCGOpcode \<Rightarrow> opt_state \<Rightarrow> TCGArg \<Rightarrow> int \<Rightarrow> error + opt_state" where
  "emit_movi tcg_op_defs op st v n =
     ebind (op_to_movi tcg_op_defs op) (\<lambda>movi.
       Inr (advance (tcg_opt_gen_movi (set_opc st movi) 0 (arg st 0) v) n 2))"

text \<open>
  \<^verbatim>\<open>if (temps_are_copies(args[0], src)) nop else { op_to_mov; tcg_opt_gen_mov; gen_args += 2 }\<close>
  followed by \<^verbatim>\<open>args += n\<close>, with \<^verbatim>\<open>src = args[i]\<close>.
\<close>

definition emit_mov ::
    "TCGContext \<Rightarrow> op_defs \<Rightarrow> TCGOpcode \<Rightarrow> opt_state \<Rightarrow> int \<Rightarrow> int \<Rightarrow> error + opt_state" where
  "emit_mov s tcg_op_defs op st i n =
     ebind (temps_are_copies (temps st) (arg st 0) (arg st i)) (\<lambda>copies.
       if copies then Inr (advance (set_opc st INDEX_op_nop) n 0)
       else ebind (op_to_mov tcg_op_defs op) (\<lambda>mov.
              ebind (tcg_opt_gen_mov s (set_opc st mov) 0 (arg st 0) (arg st i)) (\<lambda>st1.
                Inr (advance st1 n 2))))"

definition simplify_shift_of_zero ::
    "op_defs \<Rightarrow> TCGOpcode \<Rightarrow> opt_state \<Rightarrow> (error + opt_state) option" where
  "simplify_shift_of_zero tcg_op_defs op st =
     (if is_shift_rot op \<and> is_const_zero st (arg st 1)
      then Some (emit_movi tcg_op_defs op st 0 3)
      else None)"

definition simplify_op_zero_mov ::
    "TCGContext \<Rightarrow> op_defs \<Rightarrow> TCGOpcode \<Rightarrow> opt_state \<Rightarrow> (error + opt_state) option" where
  "simplify_op_zero_mov s tcg_op_defs op st =
     (if is_mov_zero_op op then
        (if state (temps st (arg st 1)) = TCG_TEMP_CONST then None
         else if is_const_zero st (arg st 2) then Some (emit_mov s tcg_op_defs op st 1 3)
         else None)
      else None)"

definition simplify_op_zero_movi ::
    "op_defs \<Rightarrow> TCGOpcode \<Rightarrow> opt_state \<Rightarrow> (error + opt_state) option" where
  "simplify_op_zero_movi tcg_op_defs op st =
     (if is_and_mul op \<and> is_const_zero st (arg st 2)
      then Some (emit_movi tcg_op_defs op st 0 3)
      else None)"

definition simplify_op_same_mov ::
    "TCGContext \<Rightarrow> op_defs \<Rightarrow> TCGOpcode \<Rightarrow> opt_state \<Rightarrow> (error + opt_state) option" where
  "simplify_op_same_mov s tcg_op_defs op st =
     (if is_or_and op then
        (case temps_are_copies (temps st) (arg st 1) (arg st 2) of
           Inl e \<Rightarrow> Some (Inl e)
         | Inr copies \<Rightarrow> if copies then Some (emit_mov s tcg_op_defs op st 1 3) else None)
      else None)"

definition simplify_op_same_movi ::
    "op_defs \<Rightarrow> TCGOpcode \<Rightarrow> opt_state \<Rightarrow> (error + opt_state) option" where
  "simplify_op_same_movi tcg_op_defs op st =
     (if is_sub_xor op then
        (case temps_are_copies (temps st) (arg st 1) (arg st 2) of
           Inl e \<Rightarrow> Some (Inl e)
         | Inr copies \<Rightarrow> if copies then Some (emit_movi tcg_op_defs op st 0 3) else None)
      else None)"


subsection \<open>Folding and propagation: the last \<^verbatim>\<open>switch\<close>\<close>

text \<open>\<^verbatim>\<open>for (i = 0; i < n; i++) gen_args[i] = args[i]\<close>, one assignment after the other.\<close>

definition copy_args :: "opt_state \<Rightarrow> nat \<Rightarrow> opt_state" where
  "copy_args st n = fold (\<lambda>i st'. set_gen_arg st' (int i) (arg st' (int i))) [0..<n] st"

text \<open>\<^verbatim>\<open>for (i = 0; i < n; i++) reset_temp(args[i])\<close>.\<close>

definition reset_args :: "opt_state \<Rightarrow> nat \<Rightarrow> temps_tab" where
  "reset_args st n = fold (\<lambda>i tab. reset_temp tab (arg st (int i))) [0..<n] (temps st)"

definition do_default :: "TCGContext \<Rightarrow> op_defs \<Rightarrow> TCGOpcode \<Rightarrow> opt_state \<Rightarrow> error + opt_state" where
  "do_default s tcg_op_defs op st =
     (let def = tcg_op_defs op;
          st1 = (if TCG_OPF_BB_END def
                 then st\<lparr>temps := memset_temps (nb_temps s) (temps st)\<rparr>
                 else st\<lparr>temps := reset_args st (nb_oargs def)\<rparr>);
          st2 = copy_args st1 (nb_args def)
      in Inr (advance st2 (int (nb_args def)) (int (nb_args def))))"

definition fold_mov :: "TCGContext \<Rightarrow> op_defs \<Rightarrow> TCGOpcode \<Rightarrow> opt_state \<Rightarrow> error + opt_state" where
  "fold_mov s tcg_op_defs op st =
     ebind (temps_are_copies (temps st) (arg st 0) (arg st 1)) (\<lambda>copies.
       if copies then Inr (set_opc (advance st 2 0) INDEX_op_nop)
       else if state (temps st (arg st 1)) \<noteq> TCG_TEMP_CONST then
         ebind (tcg_opt_gen_mov s st 0 (arg st 0) (arg st 1)) (\<lambda>st1. Inr (advance st1 2 2))
       else
         ebind (op_to_movi tcg_op_defs op) (\<lambda>movi.
           (let st1 = set_opc st movi;
                st2 = set_arg st1 1 (val (temps st1 (arg st1 1)))
            in Inr (advance (tcg_opt_gen_movi st2 0 (arg st2 0) (arg st2 1)) 2 2))))"

definition fold_movi :: "opt_state \<Rightarrow> error + opt_state" where
  "fold_movi st = Inr (advance (tcg_opt_gen_movi st 0 (arg st 0) (arg st 1)) 2 2)"

definition fold_unary :: "TCGContext \<Rightarrow> op_defs \<Rightarrow> TCGOpcode \<Rightarrow> opt_state \<Rightarrow> error + opt_state" where
  "fold_unary s tcg_op_defs op st =
     (if state (temps st (arg st 1)) = TCG_TEMP_CONST then
        ebind (op_to_movi tcg_op_defs op) (\<lambda>movi.
          ebind (do_constant_folding tcg_op_defs op (val (temps st (arg st 1))) 0) (\<lambda>tmp.
            Inr (advance (tcg_opt_gen_movi (set_opc st movi) 0 (arg st 0) tmp) 2 2)))
      else do_default s tcg_op_defs op st)"

definition fold_binary :: "TCGContext \<Rightarrow> op_defs \<Rightarrow> TCGOpcode \<Rightarrow> opt_state \<Rightarrow> error + opt_state" where
  "fold_binary s tcg_op_defs op st =
     (if state (temps st (arg st 1)) = TCG_TEMP_CONST
         \<and> state (temps st (arg st 2)) = TCG_TEMP_CONST then
        ebind (op_to_movi tcg_op_defs op) (\<lambda>movi.
          ebind (do_constant_folding tcg_op_defs op (val (temps st (arg st 1)))
                   (val (temps st (arg st 2)))) (\<lambda>tmp.
            Inr (advance (tcg_opt_gen_movi (set_opc st movi) 0 (arg st 0) tmp) 3 2)))
      else do_default s tcg_op_defs op st)"

text \<open>
  \<^verbatim>\<open>tmp = ((1ull << len) - 1); tmp = (base & ~(tmp << pos)) | ((value & tmp) << pos);\<close>
\<close>

definition deposit_value :: "TCGArg \<Rightarrow> TCGArg \<Rightarrow> TCGArg \<Rightarrow> TCGArg \<Rightarrow> error + TCGArg" where
  "deposit_value base v pos len =
     ebind (c_shl (1 :: 64 word) (unat len)) (\<lambda>one_shifted.
       (let tmp = one_shifted - 1 in
        ebind (c_shl tmp (unat pos)) (\<lambda>hole.
          ebind (c_shl (v AND tmp) (unat pos)) (\<lambda>field.
            Inr ((base AND NOT hole) OR field)))))"

definition fold_deposit :: "TCGContext \<Rightarrow> op_defs \<Rightarrow> TCGOpcode \<Rightarrow> opt_state \<Rightarrow> error + opt_state" where
  "fold_deposit s tcg_op_defs op st =
     (if state (temps st (arg st 1)) = TCG_TEMP_CONST
         \<and> state (temps st (arg st 2)) = TCG_TEMP_CONST then
        ebind (op_to_movi tcg_op_defs op) (\<lambda>movi.
          ebind (deposit_value (val (temps st (arg st 1))) (val (temps st (arg st 2)))
                   (arg st 3) (arg st 4)) (\<lambda>tmp.
            Inr (advance (tcg_opt_gen_movi (set_opc st movi) 0 (arg st 0) tmp) 5 2)))
      else do_default s tcg_op_defs op st)"

definition fold_setcond :: "TCGContext \<Rightarrow> op_defs \<Rightarrow> TCGOpcode \<Rightarrow> opt_state \<Rightarrow> error + opt_state" where
  "fold_setcond s tcg_op_defs op st =
     ebind (do_constant_folding_cond tcg_op_defs (temps st) op (arg st 1) (arg st 2) (arg st 3))
       (\<lambda>tmp.
         if tmp \<noteq> 2 then
           ebind (op_to_movi tcg_op_defs op) (\<lambda>movi.
             Inr (advance (tcg_opt_gen_movi (set_opc st movi) 0 (arg st 0) tmp) 4 2))
         else do_default s tcg_op_defs op st)"

text \<open>
  The branch of \<^verbatim>\<open>brcond\<close> and \<^verbatim>\<open>brcond2_i32\<close> taken when the comparison folded to
  \<open>tmp\<close>, 0 or 1, with the label at \<^verbatim>\<open>args[i]\<close>; the caller adds \<^verbatim>\<open>args += n\<close>.
\<close>

definition fold_branch :: "TCGContext \<Rightarrow> opt_state \<Rightarrow> TCGArg \<Rightarrow> int \<Rightarrow> opt_state" where
  "fold_branch s st tmp i =
     (if tmp \<noteq> 0 then
        advance (set_gen_arg (set_opc (st\<lparr>temps := memset_temps (nb_temps s) (temps st)\<rparr>)
                   INDEX_op_br) 0 (arg st i)) 0 1
      else set_opc st INDEX_op_nop)"

definition fold_brcond :: "TCGContext \<Rightarrow> op_defs \<Rightarrow> TCGOpcode \<Rightarrow> opt_state \<Rightarrow> error + opt_state" where
  "fold_brcond s tcg_op_defs op st =
     ebind (do_constant_folding_cond tcg_op_defs (temps st) op (arg st 0) (arg st 1) (arg st 2))
       (\<lambda>tmp.
         if tmp \<noteq> 2 then Inr (advance (fold_branch s st tmp 3) 4 0)
         else do_default s tcg_op_defs op st)"

definition fold_movcond :: "TCGContext \<Rightarrow> op_defs \<Rightarrow> TCGOpcode \<Rightarrow> opt_state \<Rightarrow> error + opt_state" where
  "fold_movcond s tcg_op_defs op st =
     ebind (do_constant_folding_cond tcg_op_defs (temps st) op (arg st 1) (arg st 2) (arg st 5))
       (\<lambda>tmp.
         if tmp \<noteq> 2 then
           (let src = arg st (4 - uint tmp) in
            ebind (temps_are_copies (temps st) (arg st 0) src) (\<lambda>copies.
              if copies then Inr (advance (set_opc st INDEX_op_nop) 6 0)
              else if state (temps st src) = TCG_TEMP_CONST then
                ebind (op_to_movi tcg_op_defs op) (\<lambda>movi.
                  Inr (advance (tcg_opt_gen_movi (set_opc st movi) 0 (arg st 0)
                                  (val (temps st src))) 6 2))
              else
                ebind (op_to_mov tcg_op_defs op) (\<lambda>mov.
                  ebind (tcg_opt_gen_mov s (set_opc st mov) 0 (arg st 0) src) (\<lambda>st1.
                    Inr (advance st1 6 2)))))
         else do_default s tcg_op_defs op st)"

text \<open>
  The double-word results of \<^verbatim>\<open>add2_i32\<close>, \<^verbatim>\<open>sub2_i32\<close> and \<^verbatim>\<open>mulu2_i32\<close>: after
  \<^verbatim>\<open>assert(gen_opc_buf[op_index + 1] == INDEX_op_nop)\<close>, two \<^verbatim>\<open>movi_i32\<close> of the halves
  of \<open>r\<close>, the second in the slot of the next opcode (\<^verbatim>\<open>++op_index\<close>).
\<close>

definition emit_movi2 :: "opt_state \<Rightarrow> 64 word \<Rightarrow> int \<Rightarrow> error + opt_state" where
  "emit_movi2 st r n =
     (if gen_opc_buf st (op_index st + 1) \<noteq> INDEX_op_nop then Inl AssertFail
      else
        (let rl = arg st 0; rh = arg st 1;
             st1 = set_opc st (INDEX_op_movi i32);
             st2 = set_opc (st1\<lparr>op_index := op_index st1 + 1\<rparr>) (INDEX_op_movi i32);
             st3 = tcg_opt_gen_movi st2 0 rl (ucast (ucast r :: 32 word));
             st4 = tcg_opt_gen_movi st3 2 rh (ucast (ucast (drop_bit 32 r) :: 32 word))
         in Inr (advance st4 n 4)))"

definition fold_add2_sub2 :: "TCGContext \<Rightarrow> op_defs \<Rightarrow> TCGOpcode \<Rightarrow> opt_state \<Rightarrow> error + opt_state" where
  "fold_add2_sub2 s tcg_op_defs op st =
     (if state (temps st (arg st 2)) = TCG_TEMP_CONST
         \<and> state (temps st (arg st 3)) = TCG_TEMP_CONST
         \<and> state (temps st (arg st 4)) = TCG_TEMP_CONST
         \<and> state (temps st (arg st 5)) = TCG_TEMP_CONST then
        (let al = ucast (val (temps st (arg st 2))) :: 32 word;
             ah = ucast (val (temps st (arg st 3))) :: 32 word;
             bl = ucast (val (temps st (arg st 4))) :: 32 word;
             bh = ucast (val (temps st (arg st 5))) :: 32 word;
             a = push_bit 32 (ucast ah :: 64 word) OR ucast al;
             b = push_bit 32 (ucast bh :: 64 word) OR ucast bl
         in emit_movi2 st (if op = INDEX_op_add2_i32 then a + b else a - b) 6)
      else do_default s tcg_op_defs op st)"

definition fold_mulu2 :: "TCGContext \<Rightarrow> op_defs \<Rightarrow> TCGOpcode \<Rightarrow> opt_state \<Rightarrow> error + opt_state" where
  "fold_mulu2 s tcg_op_defs op st =
     (if state (temps st (arg st 2)) = TCG_TEMP_CONST
         \<and> state (temps st (arg st 3)) = TCG_TEMP_CONST then
        (let a = ucast (val (temps st (arg st 2))) :: 32 word;
             b = ucast (val (temps st (arg st 3))) :: 32 word
         in emit_movi2 st ((ucast a :: 64 word) * ucast b) 4)
      else do_default s tcg_op_defs op st)"

definition is_LT_or_GE :: "TCGArg \<Rightarrow> bool" where
  "is_LT_or_GE c \<longleftrightarrow> c = cond_arg TCG_COND_LT \<or> c = cond_arg TCG_COND_GE"

definition fold_brcond2 :: "TCGContext \<Rightarrow> op_defs \<Rightarrow> TCGOpcode \<Rightarrow> opt_state \<Rightarrow> error + opt_state" where
  "fold_brcond2 s tcg_op_defs op st =
     ebind (do_constant_folding_cond2 (temps st) (arg st 0) (arg st 1) (arg st 2) (arg st 3)
              (arg st 4))
       (\<lambda>tmp.
         if tmp \<noteq> 2 then Inr (advance (fold_branch s st tmp 5) 6 0)
         else if is_LT_or_GE (arg st 4)
                 \<and> is_const_zero st (arg st 2) \<and> is_const_zero st (arg st 3) then
           (let st1 = set_opc (st\<lparr>temps := memset_temps (nb_temps s) (temps st)\<rparr>)
                        (INDEX_op_brcond i32);
                st2 = set_gen_arg st1 0 (arg st1 1);
                st3 = set_gen_arg st2 1 (arg st2 3);
                st4 = set_gen_arg st3 2 (arg st3 4);
                st5 = set_gen_arg st4 3 (arg st4 5)
            in Inr (advance st5 6 4))
         else do_default s tcg_op_defs op st)"

definition fold_setcond2 :: "TCGContext \<Rightarrow> op_defs \<Rightarrow> TCGOpcode \<Rightarrow> opt_state \<Rightarrow> error + opt_state" where
  "fold_setcond2 s tcg_op_defs op st =
     ebind (do_constant_folding_cond2 (temps st) (arg st 1) (arg st 2) (arg st 3) (arg st 4)
              (arg st 5))
       (\<lambda>tmp.
         if tmp \<noteq> 2 then
           Inr (advance (tcg_opt_gen_movi (set_opc st (INDEX_op_movi i32)) 0 (arg st 0) tmp) 6 2)
         else if is_LT_or_GE (arg st 5)
                 \<and> is_const_zero st (arg st 3) \<and> is_const_zero st (arg st 4) then
           (let st1 = set_opc st (INDEX_op_setcond i32);
                st2 = set_gen_arg st1 0 (arg st1 0);
                st3 = set_gen_arg st2 1 (arg st2 2);
                st4 = set_gen_arg st3 2 (arg st3 4);
                st5 = set_gen_arg st4 3 (arg st4 5)
            in Inr (advance st5 6 4))
         else do_default s tcg_op_defs op st)"

text \<open>
  The call: \<^verbatim>\<open>nb_call_args\<close> is an \<^verbatim>\<open>int\<close>; the loop over the outputs compares the
  \<^verbatim>\<open>int i\<close> with the unsigned \<^verbatim>\<open>args[0] >> 16\<close>, so it stops at the latest when \<open>i\<close>
  wraps to a negative number; \<^verbatim>\<open>while (i)\<close> counts the \<^verbatim>\<open>int i\<close> down to zero.
\<close>

definition fold_call :: "TCGContext \<Rightarrow> opt_state \<Rightarrow> error + opt_state" where
  "fold_call s st =
     (let a0 = arg st 0;
          nb_call_args = (ucast (drop_bit 16 a0 + (a0 AND 0xffff)) :: 32 word);
          flags = arg st (sint (nb_call_args + 1));
          tab1 = (if flags AND (TCG_CALL_NO_READ_GLOBALS OR TCG_CALL_NO_WRITE_GLOBALS) = 0
                  then fold (\<lambda>i tab. reset_temp tab (of_nat i)) [0..<nb_globals s] (temps st)
                  else temps st);
          tab2 = fold (\<lambda>i tab. reset_temp tab (arg st (sint (of_nat i + 1 :: 32 word))))
                   [0..<min (unat (drop_bit 16 a0)) (2 ^ 31)] tab1;
          n = unat (nb_call_args + 3)
      in Inr (advance (copy_args (st\<lparr>temps := tab2\<rparr>) n) (int n) (int n)))"

fun fold_op :: "TCGContext \<Rightarrow> op_defs \<Rightarrow> TCGOpcode \<Rightarrow> opt_state \<Rightarrow> error + opt_state" where
  "fold_op s d (INDEX_op_mov w) st = fold_mov s d (INDEX_op_mov w) st"
| "fold_op s d (INDEX_op_movi w) st = fold_movi st"
| "fold_op s d (INDEX_op_not w) st = fold_unary s d (INDEX_op_not w) st"
| "fold_op s d (INDEX_op_neg w) st = fold_unary s d (INDEX_op_neg w) st"
| "fold_op s d (INDEX_op_ext8s w) st = fold_unary s d (INDEX_op_ext8s w) st"
| "fold_op s d (INDEX_op_ext8u w) st = fold_unary s d (INDEX_op_ext8u w) st"
| "fold_op s d (INDEX_op_ext16s w) st = fold_unary s d (INDEX_op_ext16s w) st"
| "fold_op s d (INDEX_op_ext16u w) st = fold_unary s d (INDEX_op_ext16u w) st"
| "fold_op s d INDEX_op_ext32s_i64 st = fold_unary s d INDEX_op_ext32s_i64 st"
| "fold_op s d INDEX_op_ext32u_i64 st = fold_unary s d INDEX_op_ext32u_i64 st"
| "fold_op s d (INDEX_op_add w) st = fold_binary s d (INDEX_op_add w) st"
| "fold_op s d (INDEX_op_sub w) st = fold_binary s d (INDEX_op_sub w) st"
| "fold_op s d (INDEX_op_mul w) st = fold_binary s d (INDEX_op_mul w) st"
| "fold_op s d (INDEX_op_or w) st = fold_binary s d (INDEX_op_or w) st"
| "fold_op s d (INDEX_op_and w) st = fold_binary s d (INDEX_op_and w) st"
| "fold_op s d (INDEX_op_xor w) st = fold_binary s d (INDEX_op_xor w) st"
| "fold_op s d (INDEX_op_shl w) st = fold_binary s d (INDEX_op_shl w) st"
| "fold_op s d (INDEX_op_shr w) st = fold_binary s d (INDEX_op_shr w) st"
| "fold_op s d (INDEX_op_sar w) st = fold_binary s d (INDEX_op_sar w) st"
| "fold_op s d (INDEX_op_rotl w) st = fold_binary s d (INDEX_op_rotl w) st"
| "fold_op s d (INDEX_op_rotr w) st = fold_binary s d (INDEX_op_rotr w) st"
| "fold_op s d (INDEX_op_andc w) st = fold_binary s d (INDEX_op_andc w) st"
| "fold_op s d (INDEX_op_orc w) st = fold_binary s d (INDEX_op_orc w) st"
| "fold_op s d (INDEX_op_eqv w) st = fold_binary s d (INDEX_op_eqv w) st"
| "fold_op s d (INDEX_op_nand w) st = fold_binary s d (INDEX_op_nand w) st"
| "fold_op s d (INDEX_op_nor w) st = fold_binary s d (INDEX_op_nor w) st"
| "fold_op s d (INDEX_op_deposit w) st = fold_deposit s d (INDEX_op_deposit w) st"
| "fold_op s d (INDEX_op_setcond w) st = fold_setcond s d (INDEX_op_setcond w) st"
| "fold_op s d (INDEX_op_brcond w) st = fold_brcond s d (INDEX_op_brcond w) st"
| "fold_op s d (INDEX_op_movcond w) st = fold_movcond s d (INDEX_op_movcond w) st"
| "fold_op s d INDEX_op_add2_i32 st = fold_add2_sub2 s d INDEX_op_add2_i32 st"
| "fold_op s d INDEX_op_sub2_i32 st = fold_add2_sub2 s d INDEX_op_sub2_i32 st"
| "fold_op s d INDEX_op_mulu2_i32 st = fold_mulu2 s d INDEX_op_mulu2_i32 st"
| "fold_op s d INDEX_op_brcond2_i32 st = fold_brcond2 s d INDEX_op_brcond2_i32 st"
| "fold_op s d INDEX_op_setcond2_i32 st = fold_setcond2 s d INDEX_op_setcond2_i32 st"
| "fold_op s d INDEX_op_call st = fold_call s st"
| "fold_op s d op st = do_default s d op st"

subsection \<open>One iteration of the loop\<close>

definition simplify ::
    "TCGContext \<Rightarrow> op_defs \<Rightarrow> TCGOpcode \<Rightarrow> opt_state \<Rightarrow> error + opt_state" where
  "simplify s d op st =
     (case simplify_shift_of_zero d op st of Some r \<Rightarrow> r | None \<Rightarrow>
       (case simplify_op_zero_mov s d op st of Some r \<Rightarrow> r | None \<Rightarrow>
         (case simplify_op_zero_movi d op st of Some r \<Rightarrow> r | None \<Rightarrow>
           (case simplify_op_same_mov s d op st of Some r \<Rightarrow> r | None \<Rightarrow>
             (case simplify_op_same_movi d op st of Some r \<Rightarrow> r | None \<Rightarrow>
                fold_op s d op st)))))"

definition tcg_step :: "TCGContext \<Rightarrow> op_defs \<Rightarrow> opt_state \<Rightarrow> error + opt_state" where
  "tcg_step s d st =
     (let op = gen_opc_buf st (op_index st) in
      ebind (copy_propagation s d op st) (\<lambda>st1. simplify s d op (canonicalize op st1)))"

section \<open>The folding table of the specification\<close>

text \<open>
  The table of section 4.D of the specification, in its own words, for the families
  without a shift: the value of each family at width \<open>w\<close>. Arithmetic is integer
  arithmetic modulo \<open>2 ^ w\<close>; the bitwise families are masked to \<open>w\<close> bits; the
  extensions take the low bits of the operand, by sign or by zero.
\<close>

definition mod_w :: "nat \<Rightarrow> int \<Rightarrow> TCGArg" where
  "mod_w w k = word_of_int (k mod 2 ^ w)"

fun folding_spec :: "nat \<Rightarrow> TCGOpcode \<Rightarrow> TCGArg \<Rightarrow> TCGArg \<Rightarrow> TCGArg option" where
  "folding_spec w (INDEX_op_add _) x y = Some (mod_w w (uint x + uint y))"
| "folding_spec w (INDEX_op_sub _) x y = Some (mod_w w (uint x - uint y))"
| "folding_spec w (INDEX_op_mul _) x y = Some (mod_w w (uint x * uint y))"
| "folding_spec w (INDEX_op_and _) x y = Some (take_bit w (x AND y))"
| "folding_spec w (INDEX_op_or _) x y = Some (take_bit w (x OR y))"
| "folding_spec w (INDEX_op_xor _) x y = Some (take_bit w (x XOR y))"
| "folding_spec w (INDEX_op_andc _) x y = Some (take_bit w (x AND NOT y))"
| "folding_spec w (INDEX_op_orc _) x y = Some (take_bit w (x OR NOT y))"
| "folding_spec w (INDEX_op_eqv _) x y = Some (take_bit w (NOT (x XOR y)))"
| "folding_spec w (INDEX_op_nand _) x y = Some (take_bit w (NOT (x AND y)))"
| "folding_spec w (INDEX_op_nor _) x y = Some (take_bit w (NOT (x OR y)))"
| "folding_spec w (INDEX_op_not _) x y = Some (take_bit w (NOT x))"
| "folding_spec w (INDEX_op_neg _) x y = Some (mod_w w (- uint x))"
| "folding_spec w (INDEX_op_ext8s _) x y = Some (mod_w w (sint (ucast x :: 8 word)))"
| "folding_spec w (INDEX_op_ext16s _) x y = Some (mod_w w (sint (ucast x :: 16 word)))"
| "folding_spec w INDEX_op_ext32s_i64 x y = Some (mod_w w (sint (ucast x :: 32 word)))"
| "folding_spec w (INDEX_op_ext8u _) x y = Some (take_bit w (take_bit 8 x))"
| "folding_spec w (INDEX_op_ext16u _) x y = Some (take_bit w (take_bit 16 x))"
| "folding_spec w INDEX_op_ext32u_i64 x y = Some (take_bit w (take_bit 32 x))"
| "folding_spec w _ x y = None"

section \<open>Frame lemmas: what the small steps leave alone\<close>

lemma set_arg_proj [simp]:
  "args (set_arg st i v) = args st" "gen_args (set_arg st i v) = gen_args st"
  "op_index (set_arg st i v) = op_index st" "temps (set_arg st i v) = temps st"
  "gen_opc_buf (set_arg st i v) = gen_opc_buf st"
  by (simp_all add: set_arg_def)

lemma set_gen_arg_proj [simp]:
  "args (set_gen_arg st i v) = args st" "gen_args (set_gen_arg st i v) = gen_args st"
  "op_index (set_gen_arg st i v) = op_index st" "temps (set_gen_arg st i v) = temps st"
  "gen_opc_buf (set_gen_arg st i v) = gen_opc_buf st"
  by (simp_all add: set_gen_arg_def)

lemma set_opc_proj [simp]:
  "args (set_opc st op) = args st" "gen_args (set_opc st op) = gen_args st"
  "op_index (set_opc st op) = op_index st" "temps (set_opc st op) = temps st"
  "args_buf (set_opc st op) = args_buf st"
  "gen_opc_buf (set_opc st op) = (gen_opc_buf st)(op_index st := op)"
  by (simp_all add: set_opc_def)

lemma advance_proj [simp]:
  "args (advance st a g) = args st + a" "gen_args (advance st a g) = gen_args st + g"
  "op_index (advance st a g) = op_index st" "temps (advance st a g) = temps st"
  "args_buf (advance st a g) = args_buf st" "gen_opc_buf (advance st a g) = gen_opc_buf st"
  by (simp_all add: advance_def)

lemma arg_frame [simp]:
  "arg (set_opc st op) i = arg st i"
  "arg (st\<lparr>temps := tab\<rparr>) i = arg st i"
  by (simp_all add: arg_def)

lemma tcg_opt_gen_movi_proj [simp]:
  "args (tcg_opt_gen_movi st g dst v) = args st"
  "gen_args (tcg_opt_gen_movi st g dst v) = gen_args st"
  "op_index (tcg_opt_gen_movi st g dst v) = op_index st"
  "gen_opc_buf (tcg_opt_gen_movi st g dst v) = gen_opc_buf st"
  by (simp_all add: tcg_opt_gen_movi_def Let_def)

lemma tcg_opt_gen_mov_proj:
  assumes "tcg_opt_gen_mov s st g dst src = Inr st'"
  shows "args st' = args st \<and> gen_args st' = gen_args st \<and> op_index st' = op_index st
    \<and> gen_opc_buf st' = gen_opc_buf st"
  using assms by (auto simp add: tcg_opt_gen_mov_def Let_def split: if_splits)

lemma copy_args_proj [simp]:
  "args (copy_args st n) = args st" "gen_args (copy_args st n) = gen_args st"
  "op_index (copy_args st n) = op_index st" "temps (copy_args st n) = temps st"
  "gen_opc_buf (copy_args st n) = gen_opc_buf st"
  by (induction n) (simp_all add: copy_args_def)

lemma ebind_Inr: "ebind m f = Inr y \<longleftrightarrow> (\<exists>x. m = Inr x \<and> f x = Inr y)"
  by (cases m) (simp_all add: ebind_def)

lemma propagate_copies_proj:
  assumes "propagate_copies s st is = Inr st'"
  shows "args st' = args st \<and> gen_args st' = gen_args st \<and> op_index st' = op_index st
    \<and> temps st' = temps st \<and> gen_opc_buf st' = gen_opc_buf st"
  using assms
proof (induction "is" arbitrary: st)
  case Nil
  then show ?case by simp
next
  case (Cons i "is")
  then show ?case
    by (auto simp add: ebind_Inr split: if_splits)
qed

lemma copy_propagation_proj:
  assumes "copy_propagation s d op st = Inr st'"
  shows "args st' = args st" "gen_args st' = gen_args st" "op_index st' = op_index st"
    "temps st' = temps st" "gen_opc_buf st' = gen_opc_buf st"
  using assms propagate_copies_proj unfolding copy_propagation_def
  by (metis (full_types))+

lemma swap_commutative_proj:
  assumes "swap_commutative st dest i1 i2 = (st', b)"
  shows "args st' = args st \<and> gen_args st' = gen_args st \<and> op_index st' = op_index st
    \<and> temps st' = temps st \<and> gen_opc_buf st' = gen_opc_buf st"
  using assms by (auto simp add: swap_commutative_def Let_def split: if_splits)

lemma swap_commutative2_proj:
  assumes "swap_commutative2 st i1 i2 = (st', b)"
  shows "args st' = args st \<and> gen_args st' = gen_args st \<and> op_index st' = op_index st
    \<and> temps st' = temps st \<and> gen_opc_buf st' = gen_opc_buf st"
  using assms by (auto simp add: swap_commutative2_def Let_def split: if_splits)

lemma swap_commutative_fst_proj [simp]:
  "args (fst (swap_commutative st dest i1 i2)) = args st"
  "gen_args (fst (swap_commutative st dest i1 i2)) = gen_args st"
  "op_index (fst (swap_commutative st dest i1 i2)) = op_index st"
  "temps (fst (swap_commutative st dest i1 i2)) = temps st"
  "gen_opc_buf (fst (swap_commutative st dest i1 i2)) = gen_opc_buf st"
  by (simp_all add: swap_commutative_def Let_def)

lemma canonicalize_proj [simp]:
  "args (canonicalize op st) = args st"
  "gen_args (canonicalize op st) = gen_args st"
  "op_index (canonicalize op st) = op_index st"
  "temps (canonicalize op st) = temps st"
  "gen_opc_buf (canonicalize op st) = gen_opc_buf st"
  by (cases op; auto simp add: Let_def split: prod.splits
        dest!: swap_commutative_proj swap_commutative2_proj)+


definition cursors_advance :: "opt_state \<Rightarrow> opt_state \<Rightarrow> bool" where
  "cursors_advance st st' \<longleftrightarrow>
     op_index st \<le> op_index st' \<and> gen_args st \<le> gen_args st'
     \<and> gen_args st' - gen_args st \<le> args st' - args st"

lemma emit_movi_cursors:
  "emit_movi d op st v n = Inr st' \<Longrightarrow> 2 \<le> n \<Longrightarrow> cursors_advance st st'"
  by (auto simp add: emit_movi_def ebind_Inr cursors_advance_def)

lemma emit_mov_cursors:
  "emit_mov s d op st i n = Inr st' \<Longrightarrow> 2 \<le> n \<Longrightarrow> cursors_advance st st'"
  by (auto simp add: emit_mov_def ebind_Inr cursors_advance_def split: if_splits
      dest!: tcg_opt_gen_mov_proj)

lemma do_default_cursors:
  "do_default s d op st = Inr st' \<Longrightarrow> cursors_advance st st'"
  by (auto simp add: do_default_def Let_def cursors_advance_def)

lemma fold_mov_cursors:
  "fold_mov s d op st = Inr st' \<Longrightarrow> cursors_advance st st'"
  by (auto simp add: fold_mov_def ebind_Inr Let_def cursors_advance_def split: if_splits
      dest!: tcg_opt_gen_mov_proj)

lemma fold_movi_cursors:
  "fold_movi st = Inr st' \<Longrightarrow> cursors_advance st st'"
  by (auto simp add: fold_movi_def cursors_advance_def)

lemma fold_unary_cursors:
  "fold_unary s d op st = Inr st' \<Longrightarrow> cursors_advance st st'"
  by (auto simp add: fold_unary_def ebind_Inr split: if_splits dest: do_default_cursors)
     (simp add: cursors_advance_def)

lemma fold_binary_cursors:
  "fold_binary s d op st = Inr st' \<Longrightarrow> cursors_advance st st'"
  by (auto simp add: fold_binary_def ebind_Inr split: if_splits dest: do_default_cursors)
     (simp add: cursors_advance_def)

lemma fold_deposit_cursors:
  "fold_deposit s d op st = Inr st' \<Longrightarrow> cursors_advance st st'"
  by (auto simp add: fold_deposit_def ebind_Inr split: if_splits dest: do_default_cursors)
     (simp add: cursors_advance_def)

lemma fold_setcond_cursors:
  "fold_setcond s d op st = Inr st' \<Longrightarrow> cursors_advance st st'"
  by (auto simp add: fold_setcond_def ebind_Inr split: if_splits dest: do_default_cursors)
     (simp add: cursors_advance_def)

lemma fold_branch_proj [simp]:
  "args (fold_branch s st tmp i) = args st"
  "op_index (fold_branch s st tmp i) = op_index st"
  "gen_args (fold_branch s st tmp i) = gen_args st + (if tmp \<noteq> 0 then 1 else 0)"
  by (simp_all add: fold_branch_def)

lemma fold_brcond_cursors:
  "fold_brcond s d op st = Inr st' \<Longrightarrow> cursors_advance st st'"
  by (auto simp add: fold_brcond_def ebind_Inr split: if_splits dest: do_default_cursors)
     (simp_all add: cursors_advance_def)

lemma fold_movcond_cursors:
  "fold_movcond s d op st = Inr st' \<Longrightarrow> cursors_advance st st'"
  by (auto simp add: fold_movcond_def ebind_Inr Let_def split: if_splits
      dest: do_default_cursors dest!: tcg_opt_gen_mov_proj)
     (simp_all add: cursors_advance_def)

lemma emit_movi2_cursors:
  "emit_movi2 st r n = Inr st' \<Longrightarrow> 4 \<le> n \<Longrightarrow> cursors_advance st st'"
  by (auto simp add: emit_movi2_def Let_def cursors_advance_def split: if_splits)

lemma fold_add2_sub2_cursors:
  "fold_add2_sub2 s d op st = Inr st' \<Longrightarrow> cursors_advance st st'"
  by (auto simp add: fold_add2_sub2_def Let_def split: if_splits
      dest: do_default_cursors emit_movi2_cursors)

lemma fold_mulu2_cursors:
  "fold_mulu2 s d op st = Inr st' \<Longrightarrow> cursors_advance st st'"
  by (auto simp add: fold_mulu2_def Let_def split: if_splits
      dest: do_default_cursors emit_movi2_cursors)

lemma fold_brcond2_cursors:
  "fold_brcond2 s d op st = Inr st' \<Longrightarrow> cursors_advance st st'"
  by (auto simp add: fold_brcond2_def ebind_Inr Let_def split: if_splits dest: do_default_cursors)
     (simp_all add: cursors_advance_def)

lemma fold_setcond2_cursors:
  "fold_setcond2 s d op st = Inr st' \<Longrightarrow> cursors_advance st st'"
  by (auto simp add: fold_setcond2_def ebind_Inr Let_def split: if_splits dest: do_default_cursors)
     (simp_all add: cursors_advance_def)

lemma fold_call_cursors:
  "fold_call s st = Inr st' \<Longrightarrow> cursors_advance st st'"
  by (auto simp add: fold_call_def Let_def cursors_advance_def)

lemmas fold_cursors =
  fold_mov_cursors fold_movi_cursors fold_unary_cursors fold_binary_cursors
  fold_deposit_cursors fold_setcond_cursors fold_brcond_cursors fold_movcond_cursors
  fold_add2_sub2_cursors fold_mulu2_cursors fold_brcond2_cursors fold_setcond2_cursors
  fold_call_cursors do_default_cursors

lemma fold_op_cursors:
  "fold_op s d op st = Inr st' \<Longrightarrow> cursors_advance st st'"
  by (cases op) (simp_all add: fold_cursors)

lemma simplify_cursors:
  assumes "simplify s d op st = Inr st'"
  shows "cursors_advance st st'"
  using assms
  by (auto simp add: simplify_def simplify_shift_of_zero_def simplify_op_zero_mov_def
        simplify_op_zero_movi_def simplify_op_same_mov_def simplify_op_same_movi_def
      split: option.splits if_splits sum.splits
      dest: fold_op_cursors emit_movi_cursors emit_mov_cursors)

lemma tcg_step_cursors:
  assumes "tcg_step s d st = Inr st'"
  shows "cursors_advance st st'"
proof -
  from assms obtain st1 where
    1: "copy_propagation s d (gen_opc_buf st (op_index st)) st = Inr st1" and
    2: "simplify s d (gen_opc_buf st (op_index st)) (canonicalize (gen_opc_buf st (op_index st)) st1) = Inr st'"
    by (auto simp add: tcg_step_def Let_def ebind_Inr)
  from 2 have "cursors_advance (canonicalize (gen_opc_buf st (op_index st)) st1) st'"
    by (rule simplify_cursors)
  with copy_propagation_proj [OF 1] show ?thesis
    by (simp add: cursors_advance_def)
qed


section \<open>The loop\<close>

text \<open>
  \<^verbatim>\<open>for (op_index = 0; op_index < nb_ops; op_index++)\<close> around one operation. The body
  never moves \<open>op_index\<close> back, which is what makes the loop end.
\<close>

function tcg_constant_folding_loop ::
    "TCGContext \<Rightarrow> op_defs \<Rightarrow> nat \<Rightarrow> opt_state \<Rightarrow> error + opt_state" where
  "tcg_constant_folding_loop s d nb_ops st =
     (if op_index st < nb_ops then
        (case tcg_step s d st of
           Inl e \<Rightarrow> Inl e
         | Inr st' \<Rightarrow> tcg_constant_folding_loop s d nb_ops (st'\<lparr>op_index := op_index st' + 1\<rparr>))
      else Inr st)"
  by pat_completeness auto
termination
  by (relation "measure (\<lambda>(s, d, nb_ops, st). nb_ops - op_index st)")
     (auto dest!: tcg_step_cursors simp add: cursors_advance_def)

declare tcg_constant_folding_loop.simps [simp del]

definition entry_state :: "TCGContext \<Rightarrow> opt_state \<Rightarrow> opt_state" where
  "entry_state s st0 =
     st0\<lparr>temps := memset_temps (nb_temps s) (temps st0), gen_args := args st0, op_index := 0\<rparr>"

definition tcg_constant_folding ::
    "TCGContext \<Rightarrow> op_defs \<Rightarrow> nat \<Rightarrow> opt_state \<Rightarrow> error + opt_state" where
  "tcg_constant_folding s d nb_ops st0 = tcg_constant_folding_loop s d nb_ops (entry_state s st0)"

fun tcg_iterate ::
    "TCGContext \<Rightarrow> op_defs \<Rightarrow> nat \<Rightarrow> nat \<Rightarrow> opt_state \<Rightarrow> error + opt_state" where
  "tcg_iterate s d nb_ops 0 st = Inr st"
| "tcg_iterate s d nb_ops (Suc k) st =
     (if op_index st < nb_ops then
        (case tcg_step s d st of
           Inl e \<Rightarrow> Inl e
         | Inr st' \<Rightarrow> tcg_iterate s d nb_ops k (st'\<lparr>op_index := op_index st' + 1\<rparr>))
      else Inr st)"

section \<open>A table of opcodes and a context to run the pass on\<close>

text \<open>
  Modelled from the spec: the table \<^verbatim>\<open>tcg_op_defs\<close> the caller passes is built from a
  header that is not among the sources. \<open>example_op_defs\<close> gives each opcode the
  optimizer names the arity its code assumes (outputs, inputs, then constants), the
  width of its name, and \<^verbatim>\<open>TCG_OPF_BB_END\<close> for the branches.
\<close>

definition mk_def :: "nat \<Rightarrow> nat \<Rightarrow> nat \<Rightarrow> bool \<Rightarrow> bool \<Rightarrow> TCGOpDef" where
  "mk_def no ni n w64 bb =
     \<lparr>nb_oargs = no, nb_iargs = ni, nb_args = n, TCG_OPF_64BIT = w64, TCG_OPF_BB_END = bb\<rparr>"

fun example_op_defs :: op_defs where
  "example_op_defs INDEX_op_nop = mk_def 0 0 0 False False"
| "example_op_defs INDEX_op_br = mk_def 0 0 1 False True"
| "example_op_defs INDEX_op_call = mk_def 0 0 0 False False"
| "example_op_defs (INDEX_op_mov w) = mk_def 1 1 2 (w = i64) False"
| "example_op_defs (INDEX_op_movi w) = mk_def 1 0 2 (w = i64) False"
| "example_op_defs (INDEX_op_add w) = mk_def 1 2 3 (w = i64) False"
| "example_op_defs (INDEX_op_sub w) = mk_def 1 2 3 (w = i64) False"
| "example_op_defs (INDEX_op_mul w) = mk_def 1 2 3 (w = i64) False"
| "example_op_defs (INDEX_op_and w) = mk_def 1 2 3 (w = i64) False"
| "example_op_defs (INDEX_op_or w) = mk_def 1 2 3 (w = i64) False"
| "example_op_defs (INDEX_op_xor w) = mk_def 1 2 3 (w = i64) False"
| "example_op_defs (INDEX_op_shl w) = mk_def 1 2 3 (w = i64) False"
| "example_op_defs (INDEX_op_shr w) = mk_def 1 2 3 (w = i64) False"
| "example_op_defs (INDEX_op_sar w) = mk_def 1 2 3 (w = i64) False"
| "example_op_defs (INDEX_op_rotl w) = mk_def 1 2 3 (w = i64) False"
| "example_op_defs (INDEX_op_rotr w) = mk_def 1 2 3 (w = i64) False"
| "example_op_defs (INDEX_op_not w) = mk_def 1 1 2 (w = i64) False"
| "example_op_defs (INDEX_op_neg w) = mk_def 1 1 2 (w = i64) False"
| "example_op_defs (INDEX_op_andc w) = mk_def 1 2 3 (w = i64) False"
| "example_op_defs (INDEX_op_orc w) = mk_def 1 2 3 (w = i64) False"
| "example_op_defs (INDEX_op_eqv w) = mk_def 1 2 3 (w = i64) False"
| "example_op_defs (INDEX_op_nand w) = mk_def 1 2 3 (w = i64) False"
| "example_op_defs (INDEX_op_nor w) = mk_def 1 2 3 (w = i64) False"
| "example_op_defs (INDEX_op_ext8s w) = mk_def 1 1 2 (w = i64) False"
| "example_op_defs (INDEX_op_ext16s w) = mk_def 1 1 2 (w = i64) False"
| "example_op_defs (INDEX_op_ext8u w) = mk_def 1 1 2 (w = i64) False"
| "example_op_defs (INDEX_op_ext16u w) = mk_def 1 1 2 (w = i64) False"
| "example_op_defs INDEX_op_ext32s_i64 = mk_def 1 1 2 True False"
| "example_op_defs INDEX_op_ext32u_i64 = mk_def 1 1 2 True False"
| "example_op_defs (INDEX_op_deposit w) = mk_def 1 2 5 (w = i64) False"
| "example_op_defs (INDEX_op_setcond w) = mk_def 1 2 4 (w = i64) False"
| "example_op_defs (INDEX_op_brcond w) = mk_def 0 2 4 (w = i64) True"
| "example_op_defs (INDEX_op_movcond w) = mk_def 1 4 6 (w = i64) False"
| "example_op_defs INDEX_op_add2_i32 = mk_def 2 4 6 False False"
| "example_op_defs INDEX_op_sub2_i32 = mk_def 2 4 6 False False"
| "example_op_defs INDEX_op_mulu2_i32 = mk_def 2 2 4 False False"
| "example_op_defs INDEX_op_brcond2_i32 = mk_def 0 4 6 False True"
| "example_op_defs INDEX_op_setcond2_i32 = mk_def 1 4 6 False False"
| "example_op_defs (INDEX_op_other k) = mk_def 0 0 0 False False"

definition example_context :: TCGContext where
  "example_context =
     \<lparr>nb_temps = 8, nb_globals = 2,
      s_temps = (\<lambda>t. \<lparr>type = TCG_TYPE_I32, temp_local = False\<rparr>)\<rparr>"

definition example_state :: "TCGOpcode list \<Rightarrow> TCGArg list \<Rightarrow> opt_state" where
  "example_state ops as =
     \<lparr>temps = (\<lambda>t. \<lparr>state = TCG_TEMP_UNDEF, prev_copy = 0, next_copy = 0, val = 0\<rparr>),
      gen_opc_buf = (\<lambda>i. if i < length ops then ops ! i else INDEX_op_nop),
      args_buf = (\<lambda>i. if 0 \<le> i \<and> i < int (length as) then as ! nat i else 0),
      args = 0, gen_args = 0, op_index = 0\<rparr>"

text \<open>The stream the pass leaves: the first \<open>n\<close> opcodes, and the arguments written.\<close>

definition output_ops :: "opt_state \<Rightarrow> nat \<Rightarrow> TCGOpcode list" where
  "output_ops st n = map (gen_opc_buf st) [0..<n]"

definition output_args :: "opt_state \<Rightarrow> TCGArg list" where
  "output_args st = map (\<lambda>i. args_buf st (int i)) [0..<nat (gen_args st)]"

lemmas driver_defs =
  tcg_constant_folding_def entry_state_def tcg_constant_folding_loop.simps tcg_step_def
  copy_propagation_def simplify_def simplify_shift_of_zero_def simplify_op_zero_mov_def
  simplify_op_zero_movi_def simplify_op_same_mov_def simplify_op_same_movi_def
  emit_movi_def emit_mov_def fold_mov_def fold_movi_def fold_unary_def fold_binary_def
  fold_deposit_def fold_setcond_def fold_brcond_def fold_branch_def fold_movcond_def
  emit_movi2_def fold_add2_sub2_def fold_mulu2_def fold_brcond2_def fold_setcond2_def
  fold_call_def do_default_def copy_args_def reset_args_def
  tcg_opt_gen_mov_def tcg_opt_gen_movi_def reset_temp_def memset_temps_def
  set_state_def set_prev_def set_next_def set_val_def next_of_def prev_of_def
  temps_are_copies_def find_better_copy_def copy_loop.simps
  do_constant_folding_cond_def do_constant_folding_cond2_def compose64_def bool_arg_def
  do_constant_folding_def op_bits_def op_to_mov_def op_to_movi_def
  swap_commutative_def swap_commutative2_def is_const_def is_const_zero_def is_LT_or_GE_def
  arg_def set_arg_def set_gen_arg_def set_opc_def advance_def ebind_def
  arg_cond_def tcg_swap_cond_def tcg_invert_cond_def
  mk_def_def example_context_def example_state_def output_ops_def output_args_def
  upt_conv_Cons Let_def

section \<open>Constant folding against the specification's table\<close>

lemma mod_w_take_bit: "mod_w w k = take_bit w (word_of_int k)"
proof -
  have "take_bit w (word_of_int k :: TCGArg) = word_of_int (take_bit w k)"
    by (rule take_bit_of_int)
  also have "take_bit w k = k mod 2 ^ w"
    by (rule take_bit_eq_mod)
  finally show ?thesis
    by (simp add: mod_w_def)
qed

lemma and_mask32: "(v :: 64 word) AND 0xffffffff = take_bit 32 v"
proof -
  have "(0xffffffff :: 64 word) = mask 32"
    by (simp add: mask_eq_exp_minus_1)
  then show ?thesis
    by (simp add: take_bit_eq_mask)
qed

lemma take_bit64: "take_bit 64 (x :: 64 word) = x"
  by (simp add: take_bit_word_eq_self)

lemma ucast_ucast_take_bit:
  "LENGTH('a::len) \<le> 64 \<Longrightarrow>
   (ucast (ucast (x :: 64 word) :: 'a word) :: 64 word) = take_bit LENGTH('a) x"
  by (rule bit_word_eqI) (auto simp add: bit_simps)


text \<open>
  C2. The declared width \<open>w\<close> of an opcode is what its entry of \<^verbatim>\<open>tcg_op_defs\<close> says:
  64 when the flag \<^verbatim>\<open>TCG_OPF_64BIT\<close> is set, 32 when it is not. For every opcode of the
  families add, sub, mul, and, or, xor, andc, orc, eqv, nand, nor, not, neg and the sign
  and zero extensions, and for all operand values \<open>x\<close> and \<open>y\<close>, \<open>do_constant_folding\<close>
  returns the value the specification's table gives at that width; at width 32 the result
  is masked to 32 bits.
\<close>

theorem do_constant_folding_spec:
  assumes w: "w = 32 \<or> w = 64"
    and flag: "TCG_OPF_64BIT (tcg_op_defs op) \<longleftrightarrow> w = 64"
    and spec: "folding_spec w op x y = Some r"
  shows "do_constant_folding tcg_op_defs op x y = Inr r
         \<and> (w = 32 \<longrightarrow> r AND 0xffffffff = r)"
proof -
  from w show ?thesis
  proof
    assume 1: "w = 32"
    with flag have "\<not> TCG_OPF_64BIT (tcg_op_defs op)"
      by simp
    with spec 1 show ?thesis
      by (cases op)
        (auto simp add: do_constant_folding_def op_bits_def mod_w_take_bit and_mask32
           ucast_ucast_take_bit [where 'a=8, simplified]
           ucast_ucast_take_bit [where 'a=16, simplified]
           ucast_ucast_take_bit [where 'a=32, simplified])
  next
    assume 2: "w = 64"
    with flag have "TCG_OPF_64BIT (tcg_op_defs op)"
      by simp
    with spec 2 show ?thesis
      by (cases op)
        (auto simp add: do_constant_folding_def op_bits_def mod_w_take_bit take_bit64
           ucast_ucast_take_bit [where 'a=8, simplified]
           ucast_ucast_take_bit [where 'a=16, simplified]
           ucast_ucast_take_bit [where 'a=32, simplified])
  qed
qed

text \<open>
  At width 32, \<open>5 - 7\<close> is \<open>2 ^ 32 - 2\<close>; at width 64, \<open>0xffffffff + 1\<close> is \<open>2 ^ 32\<close>, which
  a mask to 32 bits would turn into 0.
\<close>

theorem do_constant_folding_spec_witness:
  "\<not> TCG_OPF_64BIT (example_op_defs (INDEX_op_sub i32))
   \<and> folding_spec 32 (INDEX_op_sub i32) 5 7 = Some 0xfffffffe
   \<and> do_constant_folding example_op_defs (INDEX_op_sub i32) 5 7 = Inr 0xfffffffe
   \<and> TCG_OPF_64BIT (example_op_defs (INDEX_op_add i64))
   \<and> folding_spec 64 (INDEX_op_add i64) 0xffffffff 1 = Some 0x100000000
   \<and> do_constant_folding example_op_defs (INDEX_op_add i64) 0xffffffff 1 = Inr 0x100000000"
  using do_constant_folding_spec [of 32 example_op_defs "INDEX_op_sub i32" 5 7 "0xfffffffe"]
    do_constant_folding_spec [of 64 example_op_defs "INDEX_op_add i64" "0xffffffff" 1
      "0x100000000"]
  by (simp add: mod_w_def mk_def_def)

section \<open>Rotations\<close>

lemma rotl_shifts:
  fixes x :: "'a::len word"
  assumes "0 < n" "n < LENGTH('a)"
  shows "push_bit n x OR drop_bit (LENGTH('a) - n) x = word_rotl n x"
proof (rule bit_word_eqI)
  fix k assume k: "k < LENGTH('a)"
  show "bit (push_bit n x OR drop_bit (LENGTH('a) - n) x) k = bit (word_rotl n x) k"
  proof (cases "k < n")
    case True
    then have "(k + (LENGTH('a) - n)) mod LENGTH('a) = k + (LENGTH('a) - n)"
      using assms by simp
    then show ?thesis
      using True k assms by (simp add: bit_simps add.commute)
  next
    case False
    then have "k + (LENGTH('a) - n) = LENGTH('a) + (k - n)"
      using assms by simp
    then have "(k + (LENGTH('a) - n)) mod LENGTH('a) = (LENGTH('a) + (k - n)) mod LENGTH('a)"
      by (simp only:)
    also have "\<dots> = k - n"
      using k by (simp add: less_imp_diff_less)
    finally have m: "(k + (LENGTH('a) - n)) mod LENGTH('a) = k - n" .
    have "\<not> bit x (LENGTH('a) - n + k)"
      using False assms by (auto dest: bit_imp_le_length)
    with m show ?thesis
      using False k assms by (simp add: bit_simps)
  qed
qed

lemma rotr_shifts:
  fixes x :: "'a::len word"
  assumes "0 < n" "n < LENGTH('a)"
  shows "push_bit (LENGTH('a) - n) x OR drop_bit n x = word_rotr n x"
proof (rule bit_word_eqI)
  fix k assume k: "k < LENGTH('a)"
  show "bit (push_bit (LENGTH('a) - n) x OR drop_bit n x) k = bit (word_rotr n x) k"
  proof (cases "k + n < LENGTH('a)")
    case True
    then have "\<not> LENGTH('a) - n \<le> k"
      by arith
    then show ?thesis
      using True k by (simp add: bit_simps add.commute)
  next
    case False
    then have "k + n = LENGTH('a) + (k - (LENGTH('a) - n))"
      using assms by simp
    then have "(k + n) mod LENGTH('a) = (LENGTH('a) + (k - (LENGTH('a) - n))) mod LENGTH('a)"
      by (simp only:)
    also have "\<dots> = k - (LENGTH('a) - n)"
      using k by (simp add: less_imp_diff_less)
    finally have m: "(k + n) mod LENGTH('a) = k - (LENGTH('a) - n)" .
    have "\<not> bit x (n + k)"
      using False assms by (auto dest: bit_imp_le_length)
    moreover have "LENGTH('a) - n \<le> k"
      using False by arith
    ultimately show ?thesis
      using m k assms by (simp add: bit_simps)
  qed
qed

text \<open>
  C3. Folding \<^verbatim>\<open>rotl\<close> or \<^verbatim>\<open>rotr\<close> by \<open>y = 0\<close> should give \<open>x\<close> back. The code
  computes \<^verbatim>\<open>((uint32_t)x << y) | ((uint32_t)x >> (32 - y))\<close>, and for \<open>y = 0\<close> the second
  shift is by the full width of its operand, which C leaves undefined: the fold of
  \<^verbatim>\<open>rotl_i32\<close> of 5 by 0 has no defined value.
\<close>

theorem rotl_by_zero_undefined:
  "do_constant_folding example_op_defs (INDEX_op_rotl i32) 5 0 = Inl UndefinedShift"
  by (simp add: do_constant_folding_def c_shl_def c_shr_def c_or_def widen_u_def)

section \<open>The write cursor stays behind the read cursor\<close>

lemma loop_is_iterate:
  "nb_ops - op_index st \<le> k \<Longrightarrow>
   tcg_constant_folding_loop s d nb_ops st = tcg_iterate s d nb_ops k st"
proof (induction k arbitrary: st)
  case 0
  then show ?case by (simp add: tcg_constant_folding_loop.simps)
next
  case (Suc k)
  show ?case
  proof (cases "op_index st < nb_ops")
    case False
    then show ?thesis by (simp add: tcg_constant_folding_loop.simps)
  next
    case True
    show ?thesis
    proof (cases "tcg_step s d st")
      case (Inl e)
      with True show ?thesis by (simp add: tcg_constant_folding_loop.simps)
    next
      case (Inr st')
      then have "op_index st \<le> op_index st'"
        by (auto dest!: tcg_step_cursors simp add: cursors_advance_def)
      with Suc.prems have "nb_ops - op_index (st'\<lparr>op_index := op_index st' + 1\<rparr>) \<le> k"
        by simp
      from Suc.IH [OF this] Inr True show ?thesis
        by (simp add: tcg_constant_folding_loop.simps [of s d nb_ops st])
    qed
  qed
qed

lemma tcg_iterate_cursors:
  "tcg_iterate s d nb_ops k st = Inr st' \<Longrightarrow> gen_args st \<le> args st \<Longrightarrow> gen_args st' \<le> args st'"
proof (induction k arbitrary: st)
  case 0
  then show ?case by simp
next
  case (Suc k)
  show ?case
  proof (cases "op_index st < nb_ops")
    case False
    with Suc.prems show ?thesis by simp
  next
    case True
    with Suc.prems obtain st1 where
      1: "tcg_step s d st = Inr st1" and
      2: "tcg_iterate s d nb_ops k (st1\<lparr>op_index := op_index st1 + 1\<rparr>) = Inr st'"
      by (auto split: sum.splits)
    from 1 have "cursors_advance st st1" by (rule tcg_step_cursors)
    with Suc.prems(2) have "gen_args st1 \<le> args st1"
      by (simp add: cursors_advance_def)
    with Suc.IH [OF 2] show ?thesis by simp
  qed
qed

text \<open>
  C5. At every step of the scan the write cursor \<open>gen_args\<close> is at most the read cursor
  \<open>args\<close>: after any number \<open>k\<close> of iterations of the loop, and in the state
  \<open>tcg_constant_folding\<close> returns, so that the pass has written no more arguments than
  it has read.
\<close>

theorem write_cursor_le_read_cursor:
  "(tcg_iterate s d nb_ops k (entry_state s st0) = Inr st \<longrightarrow> gen_args st \<le> args st)
   \<and> (tcg_constant_folding s d nb_ops st0 = Inr st' \<longrightarrow> gen_args st' \<le> args st')"
proof -
  have e: "gen_args (entry_state s st0) \<le> args (entry_state s st0)"
    by (simp add: entry_state_def)
  have "tcg_constant_folding s d nb_ops st0
        = tcg_iterate s d nb_ops (nb_ops - op_index (entry_state s st0)) (entry_state s st0)"
    unfolding tcg_constant_folding_def by (rule loop_is_iterate) simp
  with e show ?thesis
    by (auto dest: tcg_iterate_cursors)
qed

theorem write_cursor_le_read_cursor_witness:
  "tcg_iterate example_context example_op_defs 2 1
      (entry_state example_context
         (example_state [INDEX_op_movi i32, INDEX_op_add i32] [2, 5, 3, 2, 2]))
     = Inr (advance (tcg_opt_gen_movi
         (entry_state example_context
            (example_state [INDEX_op_movi i32, INDEX_op_add i32] [2, 5, 3, 2, 2])) 0 2 5) 2 2
         \<lparr>op_index := 1\<rparr>)
   \<and> (\<exists>st'. tcg_constant_folding example_context example_op_defs 2
         (example_state [INDEX_op_movi i32, INDEX_op_add i32] [2, 5, 3, 2, 2]) = Inr st'
        \<and> gen_args st' = 4 \<and> args st' = 5 \<and> gen_args st' \<le> args st')"
proof -
  let ?st0 = "example_state [INDEX_op_movi i32, INDEX_op_add i32] [2, 5, 3, 2, 2]"
  have 1: "tcg_iterate example_context example_op_defs 2 1 (entry_state example_context ?st0)
     = Inr (advance (tcg_opt_gen_movi (entry_state example_context ?st0) 0 2 5) 2 2
         \<lparr>op_index := 1\<rparr>)"
    by (simp add: driver_defs)
  obtain st' where 2: "tcg_constant_folding example_context example_op_defs 2 ?st0 = Inr st'"
    and 3: "gen_args st' = 4" "args st' = 5"
    by (simp add: driver_defs)
  from write_cursor_le_read_cursor [of example_context example_op_defs 2 1 ?st0 _ st'] 1 2 3
  show ?thesis by simp
qed

section \<open>Two streams the pass mishandles\<close>

text \<open>
  C9. The assertion at the top of \<^verbatim>\<open>tcg_opt_gen_mov\<close> should never fire. On the stream
  \<^verbatim>\<open>movi_i32 t2, 5; and_i32 t3, t2, t2\<close> it does: \<open>t2\<close> is a copy of itself, so the
  rule \<^verbatim>\<open>and r, a, a => mov r, a\<close> calls \<^verbatim>\<open>tcg_opt_gen_mov\<close> with the constant \<open>t2\<close>
  as source.
\<close>

theorem and_of_constant_asserts:
  "tcg_constant_folding example_context example_op_defs 2
     (example_state [INDEX_op_movi i32, INDEX_op_and i32] [2, 5, 3, 2, 2])
   = Inl AssertFail"
  by (simp add: driver_defs)

text \<open>
  C1. The output stream should compute what the input stream computes. On
  \<^verbatim>\<open>movi_i32 t2, 5; movi_i32 t3, 0; setcond2_i32 t2, t0, t1, t3, t3, LT; mov_i32 t4, t2\<close>
  the pass rewrites the double-word comparison to \<^verbatim>\<open>setcond_i32 t2, t1, t3, LT\<close> without
  resetting \<open>t2\<close>, still recorded as the constant 5, and then turns the \<^verbatim>\<open>mov\<close> into
  \<^verbatim>\<open>movi_i32 t4, 5\<close>: the input leaves the result of the comparison, 0 or 1, in \<open>t4\<close>,
  and the output leaves 5.
\<close>

theorem setcond2_keeps_stale_constant:
  "\<exists>st'. tcg_constant_folding example_context example_op_defs 4
       (example_state
          [INDEX_op_movi i32, INDEX_op_movi i32, INDEX_op_setcond2_i32, INDEX_op_mov i32]
          [2, 5,  3, 0,  2, 0, 1, 3, 3, cond_arg TCG_COND_LT,  4, 2]) = Inr st'
     \<and> output_ops st' 4
         = [INDEX_op_movi i32, INDEX_op_movi i32, INDEX_op_setcond i32, INDEX_op_movi i32]
     \<and> output_args st' = [2, 5,  3, 0,  2, 1, 3, cond_arg TCG_COND_LT,  4, 5]"
  by (simp add: driver_defs)

section \<open>Comparing copies\<close>

lemma arg_cond_cond_arg [simp]: "arg_cond (cond_arg c) = Some c"
  by (cases c) (simp_all add: arg_cond_def)







section \<open>A branch that is never taken\<close>

text \<open>
  The comparison of a \<^verbatim>\<open>brcond\<close> or \<^verbatim>\<open>brcond2_i32\<close> as the driver folds it: on the
  arguments after copy propagation and canonicalization. 0 and 1 are the folded
  outcomes, 2 is a comparison that does not fold (and every other opcode).
\<close>

definition folded_branch_cond :: "TCGContext \<Rightarrow> op_defs \<Rightarrow> opt_state \<Rightarrow> error + TCGArg" where
  "folded_branch_cond s d st =
     (let op = gen_opc_buf st (op_index st) in
      ebind (copy_propagation s d op st) (\<lambda>st1.
        (let st2 = canonicalize op st1 in
         case op of
           INDEX_op_brcond w \<Rightarrow>
             do_constant_folding_cond d (temps st2) op (arg st2 0) (arg st2 1) (arg st2 2)
         | INDEX_op_brcond2_i32 \<Rightarrow>
             do_constant_folding_cond2 (temps st2) (arg st2 0) (arg st2 1) (arg st2 2) (arg st2 3)
               (arg st2 4)
         | _ \<Rightarrow> Inr 2)))"

lemma simplify_brcond [simp]:
  "simplify s d (INDEX_op_brcond w) st = fold_brcond s d (INDEX_op_brcond w) st"
  "simplify s d INDEX_op_brcond2_i32 st = fold_brcond2 s d INDEX_op_brcond2_i32 st"
  by (simp_all add: simplify_def simplify_shift_of_zero_def simplify_op_zero_mov_def
        simplify_op_zero_movi_def simplify_op_same_mov_def simplify_op_same_movi_def)

text \<open>
  C10. When the condition of a \<^verbatim>\<open>brcond\<close> or \<^verbatim>\<open>brcond2_i32\<close> folds to false, the step
  replaces the operation by a \<^verbatim>\<open>nop\<close>, writes no argument, and leaves the table of
  temp states exactly as it was.
\<close>

theorem branch_not_taken_keeps_table:
  assumes "folded_branch_cond s d st = Inr 0"
  shows "\<exists>st'. tcg_step s d st = Inr st'
           \<and> temps st' = temps st
           \<and> gen_opc_buf st' = (gen_opc_buf st)(op_index st := INDEX_op_nop)
           \<and> gen_args st' = gen_args st"
proof -
  define op where "op = gen_opc_buf st (op_index st)"
  from assms obtain st1 where
    1: "copy_propagation s d op st = Inr st1"
    by (auto simp add: folded_branch_cond_def Let_def ebind_Inr op_def)
  define st2 where "st2 = canonicalize op st1"
  have p: "temps st2 = temps st" "gen_opc_buf st2 = gen_opc_buf st"
    "op_index st2 = op_index st" "gen_args st2 = gen_args st"
    using copy_propagation_proj [OF 1] by (simp_all add: st2_def)
  have step: "tcg_step s d st = simplify s d op st2"
    using 1 by (simp add: tcg_step_def ebind_def op_def st2_def Let_def)
  from assms 1 consider
      w where "op = INDEX_op_brcond w"
        "do_constant_folding_cond d (temps st2) op (arg st2 0) (arg st2 1) (arg st2 2) = Inr 0"
    | "op = INDEX_op_brcond2_i32"
        "do_constant_folding_cond2 (temps st2) (arg st2 0) (arg st2 1) (arg st2 2) (arg st2 3)
           (arg st2 4) = Inr 0"
    unfolding folded_branch_cond_def Let_def op_def [symmetric]
    by (auto simp add: ebind_def st2_def split: TCGOpcode.splits)
  then show ?thesis
  proof cases
    case 1
    with p step show ?thesis
      by (simp add: ebind_def fold_brcond_def fold_branch_def)
  next
    case 2
    with p step show ?thesis
      by (simp add: ebind_def fold_brcond2_def fold_branch_def)
  qed
qed

definition one_constant :: "TCGArg \<Rightarrow> temps_tab" where
  "one_constant v =
     (\<lambda>t. \<lparr>state = TCG_TEMP_UNDEF, prev_copy = 0, next_copy = 0, val = 0\<rparr>)
       (2 := \<lparr>state = TCG_TEMP_CONST, prev_copy = 0, next_copy = 0, val = v\<rparr>)"

theorem branch_not_taken_keeps_table_witness:
  "folded_branch_cond example_context example_op_defs
     ((example_state [INDEX_op_brcond i32] [2, 2, cond_arg TCG_COND_NE, 9])
        \<lparr>temps := one_constant 5\<rparr>) = Inr 0
   \<and> (\<exists>st'. tcg_step example_context example_op_defs
         ((example_state [INDEX_op_brcond i32] [2, 2, cond_arg TCG_COND_NE, 9])
            \<lparr>temps := one_constant 5\<rparr>) = Inr st'
        \<and> temps st' = one_constant 5 \<and> gen_opc_buf st' 0 = INDEX_op_nop \<and> gen_args st' = 0)"
proof -
  let ?st = "(example_state [INDEX_op_brcond i32] [2, 2, cond_arg TCG_COND_NE, 9])
        \<lparr>temps := one_constant 5\<rparr>"
  have 1: "folded_branch_cond example_context example_op_defs ?st = Inr 0"
    by (simp add: folded_branch_cond_def driver_defs one_constant_def)
  from branch_not_taken_keeps_table [OF 1] 1 show ?thesis
    by (auto simp add: example_state_def)
qed

section \<open>Double-word comparisons against zero\<close>

text \<open>
  The operation as the rewriting rules see it: its arguments after copy propagation and
  canonicalization.
\<close>

definition canonical :: "TCGContext \<Rightarrow> op_defs \<Rightarrow> opt_state \<Rightarrow> error + opt_state" where
  "canonical s d st =
     (let op = gen_opc_buf st (op_index st) in
      ebind (copy_propagation s d op st) (\<lambda>st1. Inr (canonicalize op st1)))"

text \<open>The arguments a step from \<open>st\<close> to \<open>st'\<close> has written.\<close>

definition emitted :: "opt_state \<Rightarrow> opt_state \<Rightarrow> TCGArg list" where
  "emitted st st' =
     map (\<lambda>i. args_buf st' (gen_args st + int i)) [0..<nat (gen_args st' - gen_args st)]"

lemma simplify_setcond2 [simp]:
  "simplify s d INDEX_op_setcond2_i32 st = fold_setcond2 s d INDEX_op_setcond2_i32 st"
  by (simp add: simplify_def simplify_shift_of_zero_def simplify_op_zero_mov_def
        simplify_op_zero_movi_def simplify_op_same_mov_def simplify_op_same_movi_def)

lemma tcg_step_canonical:
  "canonical s d st = Inr st2 \<Longrightarrow>
   tcg_step s d st = simplify s d (gen_opc_buf st (op_index st)) st2"
  by (auto simp add: canonical_def tcg_step_def Let_def ebind_def split: sum.splits)

lemma canonical_proj:
  assumes "canonical s d st = Inr st2"
  shows "args st2 = args st" "gen_args st2 = gen_args st" "op_index st2 = op_index st"
    "temps st2 = temps st" "gen_opc_buf st2 = gen_opc_buf st"
proof -
  from assms obtain st1 where 1: "copy_propagation s d (gen_opc_buf st (op_index st)) st = Inr st1"
    and 2: "st2 = canonicalize (gen_opc_buf st (op_index st)) st1"
    by (auto simp add: canonical_def Let_def ebind_Inr)
  from copy_propagation_proj [OF 1] 2
  show "args st2 = args st" "gen_args st2 = gen_args st" "op_index st2 = op_index st"
    "temps st2 = temps st" "gen_opc_buf st2 = gen_opc_buf st"
    by simp_all
qed

lemma upt4: "[0..<4] = [0, 1, 2, 3]"
  by (simp add: upt_conv_Cons)

text \<open>
  C7. For \<^verbatim>\<open>brcond2_i32\<close> and \<^verbatim>\<open>setcond2_i32\<close>, when the double-word comparison does not
  fold, both halves of the right-hand side are the constant zero and the predicate is LT
  or GE, the step rewrites the operation to \<^verbatim>\<open>brcond_i32\<close> (\<^verbatim>\<open>setcond_i32\<close>) on the
  high halves alone, the left high half against the right high half, with the same
  predicate and the same label (destination).
\<close>

theorem double_word_compare_with_zero:
  assumes c: "canonical s d st = Inr st2"
    and le: "gen_args st \<le> args st"
    and "gen_opc_buf st (op_index st) = INDEX_op_brcond2_i32
           \<and> do_constant_folding_cond2 (temps st2) (arg st2 0) (arg st2 1) (arg st2 2) (arg st2 3)
               (arg st2 4) = Inr 2
           \<and> is_LT_or_GE (arg st2 4)
           \<and> is_const_zero st2 (arg st2 2) \<and> is_const_zero st2 (arg st2 3)
         \<or> gen_opc_buf st (op_index st) = INDEX_op_setcond2_i32
           \<and> do_constant_folding_cond2 (temps st2) (arg st2 1) (arg st2 2) (arg st2 3) (arg st2 4)
               (arg st2 5) = Inr 2
           \<and> is_LT_or_GE (arg st2 5)
           \<and> is_const_zero st2 (arg st2 3) \<and> is_const_zero st2 (arg st2 4)"
  shows "\<exists>st'. tcg_step s d st = Inr st'
           \<and> args st' = args st + 6
           \<and> (gen_opc_buf st (op_index st) = INDEX_op_brcond2_i32 \<longrightarrow>
                gen_opc_buf st' (op_index st) = INDEX_op_brcond i32
                \<and> emitted st st' = [arg st2 1, arg st2 3, arg st2 4, arg st2 5])
           \<and> (gen_opc_buf st (op_index st) = INDEX_op_setcond2_i32 \<longrightarrow>
                gen_opc_buf st' (op_index st) = INDEX_op_setcond i32
                \<and> emitted st st' = [arg st2 0, arg st2 2, arg st2 4, arg st2 5])"
proof -
  note p = canonical_proj [OF c]
  note step = tcg_step_canonical [OF c]
  from assms(3) show ?thesis
  proof (elim disjE conjE)
    assume "gen_opc_buf st (op_index st) = INDEX_op_brcond2_i32"
      "do_constant_folding_cond2 (temps st2) (arg st2 0) (arg st2 1) (arg st2 2) (arg st2 3)
               (arg st2 4) = Inr 2"
      "is_LT_or_GE (arg st2 4)" "is_const_zero st2 (arg st2 2)" "is_const_zero st2 (arg st2 3)"
    with p le step show ?thesis
      by (simp add: fold_brcond2_def ebind_def Let_def emitted_def upt4 arg_def set_gen_arg_def
          is_const_zero_def)
  next
    assume "gen_opc_buf st (op_index st) = INDEX_op_setcond2_i32"
      "do_constant_folding_cond2 (temps st2) (arg st2 1) (arg st2 2) (arg st2 3) (arg st2 4)
               (arg st2 5) = Inr 2"
      "is_LT_or_GE (arg st2 5)" "is_const_zero st2 (arg st2 3)" "is_const_zero st2 (arg st2 4)"
    with p le step show ?thesis
      by (simp add: fold_setcond2_def ebind_def Let_def emitted_def upt4 arg_def set_gen_arg_def
          is_const_zero_def)
  qed
qed

definition zero_halves :: temps_tab where
  "zero_halves =
     (\<lambda>t. \<lparr>state = TCG_TEMP_UNDEF, prev_copy = 0, next_copy = 0, val = 0\<rparr>)
       (2 := \<lparr>state = TCG_TEMP_CONST, prev_copy = 0, next_copy = 0, val = 0\<rparr>,
        3 := \<lparr>state = TCG_TEMP_CONST, prev_copy = 0, next_copy = 0, val = 0\<rparr>)"

definition brcond2_example :: opt_state where
  "brcond2_example =
     (example_state [INDEX_op_brcond2_i32] [0, 1, 2, 3, cond_arg TCG_COND_LT, 9])
       \<lparr>temps := zero_halves\<rparr>"

theorem double_word_compare_with_zero_witness:
  "canonical example_context example_op_defs brcond2_example = Inr brcond2_example
   \<and> gen_args brcond2_example \<le> args brcond2_example
   \<and> gen_opc_buf brcond2_example (op_index brcond2_example) = INDEX_op_brcond2_i32
   \<and> do_constant_folding_cond2 (temps brcond2_example) 0 1 2 3 (cond_arg TCG_COND_LT) = Inr 2
   \<and> is_LT_or_GE (cond_arg TCG_COND_LT)
   \<and> is_const_zero brcond2_example 2 \<and> is_const_zero brcond2_example 3
   \<and> (\<exists>st'. tcg_step example_context example_op_defs brcond2_example = Inr st'
        \<and> gen_opc_buf st' 0 = INDEX_op_brcond i32
        \<and> emitted brcond2_example st' = [1, 3, cond_arg TCG_COND_LT, 9])"
proof -
  have c: "canonical example_context example_op_defs brcond2_example = Inr brcond2_example"
    by (simp add: canonical_def brcond2_example_def zero_halves_def driver_defs)
  have a: "arg brcond2_example 0 = 0" "arg brcond2_example 1 = 1" "arg brcond2_example 2 = 2"
    "arg brcond2_example 3 = 3" "arg brcond2_example 4 = cond_arg TCG_COND_LT"
    "arg brcond2_example 5 = 9"
    by (simp_all add: brcond2_example_def driver_defs)
  have le: "gen_args brcond2_example \<le> args brcond2_example"
    and op: "gen_opc_buf brcond2_example (op_index brcond2_example) = INDEX_op_brcond2_i32"
    and i: "op_index brcond2_example = 0"
    by (simp_all add: brcond2_example_def example_state_def)
  have f: "do_constant_folding_cond2 (temps brcond2_example) 0 1 2 3 (cond_arg TCG_COND_LT) = Inr 2"
    by (simp add: brcond2_example_def zero_halves_def driver_defs)
  have z: "is_LT_or_GE (cond_arg TCG_COND_LT)"
    "is_const_zero brcond2_example 2" "is_const_zero brcond2_example 3"
    by (simp_all add: brcond2_example_def zero_halves_def is_LT_or_GE_def is_const_zero_def)
  from double_word_compare_with_zero [OF c le] op f z a i c le show ?thesis
    by auto
qed

section \<open>Links are sixteen bits wide\<close>

lemma ucast16_inj: "(ucast (a :: 16 word) :: 64 word) = ucast b \<longleftrightarrow> a = b"
proof
  assume h: "(ucast a :: 64 word) = ucast b"
  show "a = b"
  proof (rule bit_word_eqI)
    fix n assume "n < LENGTH(16)"
    moreover from h have "bit (ucast a :: 64 word) n = bit (ucast b :: 64 word) n"
      by simp
    ultimately show "bit a n = bit b n"
      by (simp add: bit_simps)
  qed
qed simp

lemma ucast16_round:
  assumes "unat (t :: 64 word) < 65536"
  shows "(ucast (ucast t :: 16 word) :: 64 word) = t"
proof -
  have "(ucast (ucast t :: 16 word) :: 64 word) = take_bit 16 t"
    by (rule bit_word_eqI) (auto simp add: bit_simps)
  moreover have "unat (take_bit 16 t) = unat t"
    using assms by (simp add: unsigned_take_bit_eq take_bit_nat_eq_self)
  ultimately show ?thesis
    by (simp add: word_unat_eq_iff)
qed

section \<open>Well-formed copy rings\<close>

definition is_copy :: "temps_tab \<Rightarrow> TCGArg \<Rightarrow> bool" where
  "is_copy tab t \<longleftrightarrow> state (tab t) = TCG_TEMP_COPY"

text \<open>
  The invariant of the table for the temps of a context with \<open>n\<close> temps: every temp
  in state \<^verbatim>\<open>TCG_TEMP_COPY\<close> has both neighbours among the temps, both in state
  \<^verbatim>\<open>TCG_TEMP_COPY\<close>, and the links are symmetric.
\<close>

definition ring_inv :: "nat \<Rightarrow> temps_tab \<Rightarrow> bool" where
  "ring_inv n tab \<longleftrightarrow>
     (\<forall>t. unat t < n \<and> is_copy tab t \<longrightarrow>
        unat (next_of tab t) < n \<and> unat (prev_of tab t) < n
        \<and> is_copy tab (next_of tab t) \<and> is_copy tab (prev_of tab t)
        \<and> next_of tab (prev_of tab t) = t \<and> prev_of tab (next_of tab t) = t)"

lemma ring_invD:
  assumes "ring_inv n tab" "unat t < n" "is_copy tab t"
  shows "unat (next_of tab t) < n" "unat (prev_of tab t) < n"
    "is_copy tab (next_of tab t)" "is_copy tab (prev_of tab t)"
    "next_of tab (prev_of tab t) = t" "prev_of tab (next_of tab t) = t"
  using assms unfolding ring_inv_def by blast+

lemma set_state_simps [simp]:
  "is_copy (set_state tab t v) u = (if u = t then v = TCG_TEMP_COPY else is_copy tab u)"
  "state (set_state tab t v u) = (if u = t then v else state (tab u))"
  "next_of (set_state tab t v) = next_of tab"
  "prev_of (set_state tab t v) = prev_of tab"
  "next_copy (set_state tab t v u) = next_copy (tab u)"
  "prev_copy (set_state tab t v u) = prev_copy (tab u)"
  by (auto simp add: set_state_def is_copy_def next_of_def prev_of_def)

lemma set_prev_simps [simp]:
  "is_copy (set_prev tab t p) u = is_copy tab u"
  "state (set_prev tab t p u) = state (tab u)"
  "next_of (set_prev tab t p) = next_of tab"
  "prev_of (set_prev tab t p) u = (if u = t then ucast p else prev_of tab u)"
  "next_copy (set_prev tab t p u) = next_copy (tab u)"
  "prev_copy (set_prev tab t p u) = (if u = t then p else prev_copy (tab u))"
  by (auto simp add: set_prev_def is_copy_def next_of_def prev_of_def)

lemma set_next_simps [simp]:
  "is_copy (set_next tab t p) u = is_copy tab u"
  "state (set_next tab t p u) = state (tab u)"
  "prev_of (set_next tab t p) = prev_of tab"
  "next_of (set_next tab t p) u = (if u = t then ucast p else next_of tab u)"
  "prev_copy (set_next tab t p u) = prev_copy (tab u)"
  "next_copy (set_next tab t p u) = (if u = t then p else next_copy (tab u))"
  by (auto simp add: set_next_def is_copy_def next_of_def prev_of_def)

lemma set_val_simps [simp]:
  "is_copy (set_val tab t v) u = is_copy tab u"
  "state (set_val tab t v u) = state (tab u)"
  "prev_of (set_val tab t v) = prev_of tab"
  "next_of (set_val tab t v) = next_of tab"
  by (auto simp add: set_val_def is_copy_def next_of_def prev_of_def)

lemma links_eq: "prev_copy (tab t) = next_copy (tab t) \<longleftrightarrow> prev_of tab t = next_of tab t"
  by (simp add: prev_of_def next_of_def ucast16_inj)

lemma ucast_links:
  "ucast (next_copy (tab t)) = next_of tab t" "ucast (prev_copy (tab t)) = prev_of tab t"
  by (simp_all add: prev_of_def next_of_def)

lemma reset_temp_not_copy:
  "\<not> is_copy tab t \<Longrightarrow> reset_temp tab t = set_state tab t TCG_TEMP_UNDEF"
  by (simp add: ucast_links reset_temp_def is_copy_def)

lemma reset_temp_pair:
  "is_copy tab t \<Longrightarrow> prev_of tab t = next_of tab t \<Longrightarrow>
   reset_temp tab t = set_state (set_state tab (next_of tab t) TCG_TEMP_UNDEF) t TCG_TEMP_UNDEF"
  by (simp add: ucast_links reset_temp_def is_copy_def links_eq)

lemma reset_temp_unlink:
  "is_copy tab t \<Longrightarrow> prev_of tab t \<noteq> next_of tab t \<Longrightarrow> next_of tab t \<noteq> t \<Longrightarrow>
   reset_temp tab t =
     set_state (set_next (set_prev tab (next_of tab t) (prev_copy (tab t)))
                  (prev_of tab t) (next_copy (tab t))) t TCG_TEMP_UNDEF"
  by (simp add: ucast_links reset_temp_def is_copy_def links_eq Let_def)

lemma reset_temp_ring_inv:
  assumes inv: "ring_inv n tab" and t: "unat t < n"
  shows "ring_inv n (reset_temp tab t)"
proof (cases "is_copy tab t")
  case False
  then have "\<And>u. is_copy tab u \<Longrightarrow> unat u < n \<Longrightarrow> next_of tab u \<noteq> t \<and> prev_of tab u \<noteq> t"
    using inv by (auto dest: ring_invD)
  with inv False show ?thesis
    unfolding ring_inv_def by (simp add: reset_temp_not_copy)
next
  case True
  note d = ring_invD [OF inv]
  note dt = ring_invD [OF inv t True]
  show ?thesis
  proof (cases "prev_of tab t = next_of tab t")
    case eq: True
    define b where "b = next_of tab t"
    have b: "prev_of tab t = b" "next_of tab t = b" "next_of tab b = t" "prev_of tab b = t"
      using dt eq by (simp_all add: b_def)
    have "next_of tab u \<noteq> t \<and> prev_of tab u \<noteq> t \<and> next_of tab u \<noteq> b \<and> prev_of tab u \<noteq> b"
      if "is_copy tab u" "unat u < n" "u \<noteq> t" "u \<noteq> b" for u
      using d [OF that(2) that(1)] that(3,4) b by metis
    with inv show ?thesis
      unfolding ring_inv_def reset_temp_pair [OF True eq] b
      by simp
  next
    case neq: False
    define a where "a = prev_of tab t"
    define b where "b = next_of tab t"
    have ab: "prev_of tab t = a" "next_of tab t = b" "a \<noteq> b" "next_of tab a = t" "prev_of tab b = t"
      using dt neq by (simp_all add: a_def b_def)
    have bt: "b \<noteq> t" "a \<noteq> t"
      using ab by auto
    have da: "unat a < n" "is_copy tab a" and db: "unat b < n" "is_copy tab b"
      using dt ab by simp_all
    have other: "next_of tab u \<noteq> t \<and> prev_of tab u \<noteq> t \<and> next_of tab u \<noteq> b \<and> prev_of tab u \<noteq> a"
      if "is_copy tab u" "unat u < n" "u \<noteq> t" "u \<noteq> a" "u \<noteq> b" for u
      using d [OF that(2) that(1)] that(3,4,5) ab by metis
    have r: "reset_temp tab t =
       set_state (set_next (set_prev tab b (prev_copy (tab t))) a (next_copy (tab t))) t
         TCG_TEMP_UNDEF"
      using reset_temp_unlink [OF True] neq bt ab by simp
    show ?thesis
      unfolding ring_inv_def r
    proof (intro allI impI)
      fix u
      assume "unat u < n \<and> is_copy (set_state (set_next (set_prev tab b (prev_copy (tab t))) a
          (next_copy (tab t))) t TCG_TEMP_UNDEF) u"
      then have u: "unat u < n" "is_copy tab u" "u \<noteq> t"
        by (simp_all split: if_splits)
      note du = d [OF u(1,2)]
      have nu: "next_of tab u = t \<longleftrightarrow> u = a" "prev_of tab u = t \<longleftrightarrow> u = b"
        "next_of tab u = b \<longleftrightarrow> u = t" "prev_of tab u = a \<longleftrightarrow> u = t"
        using du ab by metis+
      show "unat (next_of (set_state (set_next (set_prev tab b (prev_copy (tab t))) a
          (next_copy (tab t))) t TCG_TEMP_UNDEF) u) < n \<and>
        unat (prev_of (set_state (set_next (set_prev tab b (prev_copy (tab t))) a
          (next_copy (tab t))) t TCG_TEMP_UNDEF) u) < n \<and>
        is_copy (set_state (set_next (set_prev tab b (prev_copy (tab t))) a
          (next_copy (tab t))) t TCG_TEMP_UNDEF)
         (next_of (set_state (set_next (set_prev tab b (prev_copy (tab t))) a
          (next_copy (tab t))) t TCG_TEMP_UNDEF) u) \<and>
        is_copy (set_state (set_next (set_prev tab b (prev_copy (tab t))) a
          (next_copy (tab t))) t TCG_TEMP_UNDEF)
         (prev_of (set_state (set_next (set_prev tab b (prev_copy (tab t))) a
          (next_copy (tab t))) t TCG_TEMP_UNDEF) u) \<and>
        next_of (set_state (set_next (set_prev tab b (prev_copy (tab t))) a
          (next_copy (tab t))) t TCG_TEMP_UNDEF)
         (prev_of (set_state (set_next (set_prev tab b (prev_copy (tab t))) a
          (next_copy (tab t))) t TCG_TEMP_UNDEF) u) = u \<and>
        prev_of (set_state (set_next (set_prev tab b (prev_copy (tab t))) a
          (next_copy (tab t))) t TCG_TEMP_UNDEF)
         (next_of (set_state (set_next (set_prev tab b (prev_copy (tab t))) a
          (next_copy (tab t))) t TCG_TEMP_UNDEF) u) = u"
        using u du nu ab bt da db d [OF da] d [OF db] by (auto simp add: ab ucast_links)
    qed
  qed
qed

lemma reset_temp_is_copy:
  "is_copy (reset_temp tab t) u \<Longrightarrow> is_copy tab u \<and> u \<noteq> t"
  by (auto simp add: reset_temp_def Let_def is_copy_def set_state_def set_prev_def set_next_def
      split: if_splits)

lemma reset_temp_state_other:
  assumes "ring_inv n tab" "unat t < n" "u \<noteq> t" "\<not> is_copy tab u"
  shows "state (reset_temp tab t u) = state (tab u)"
proof (cases "is_copy tab t")
  case False
  with assms show ?thesis by (simp add: reset_temp_not_copy)
next
  case True
  from ring_invD [OF assms(1,2) True] assms(4) have "next_of tab t \<noteq> u"
    by auto
  with True assms(3) show ?thesis
    by (auto simp add: reset_temp_def Let_def is_copy_def set_state_def set_prev_def set_next_def)
qed

text \<open>The table \<^verbatim>\<open>tcg_opt_gen_mov\<close> leaves when the types agree, from the table after the
  reset of \<open>dst\<close>.\<close>

definition join_copy :: "temps_tab \<Rightarrow> TCGArg \<Rightarrow> TCGArg \<Rightarrow> temps_tab" where
  "join_copy t1 dst src =
     (let t2 = (if state (t1 src) \<noteq> TCG_TEMP_COPY
                then set_prev (set_next (set_state t1 src TCG_TEMP_COPY)
                       src (ucast src)) src (ucast src)
                else t1);
          t3 = set_state t2 dst TCG_TEMP_COPY;
          t4 = set_next t3 dst (next_copy (t3 src));
          t5 = set_prev t4 dst (ucast src);
          t6 = set_prev t5 (next_of t5 dst) (ucast dst)
      in set_next t6 src (ucast dst))"

lemma tcg_opt_gen_mov_temps:
  assumes "tcg_opt_gen_mov s st g dst src = Inr st'"
  shows "temps st' = (if type (s_temps s src) = type (s_temps s dst)
                      then join_copy (reset_temp (temps st) dst) dst src
                      else reset_temp (temps st) dst)"
    and "state (reset_temp (temps st) dst src) \<noteq> TCG_TEMP_CONST"
  using assms by (auto simp add: tcg_opt_gen_mov_def join_copy_def Let_def split: if_splits)

lemma join_copy_fresh:
  assumes "\<not> is_copy t1 src" "dst \<noteq> src" "unat dst < 65536" "unat src < 65536"
  shows "is_copy (join_copy t1 dst src) u \<longleftrightarrow> u = src \<or> u = dst \<or> is_copy t1 u"
    "next_of (join_copy t1 dst src) u = (if u = src then dst else if u = dst then src else next_of t1 u)"
    "prev_of (join_copy t1 dst src) u = (if u = src then dst else if u = dst then src else prev_of t1 u)"
  using assms
  by (auto simp add: ucast_links join_copy_def Let_def ucast16_round is_copy_def [of t1 src])

lemma join_copy_splice:
  assumes "is_copy t1 src" "dst \<noteq> src" "unat dst < 65536" "unat src < 65536"
    "\<not> is_copy t1 dst" "is_copy t1 (next_of t1 src)"
  shows "is_copy (join_copy t1 dst src) u \<longleftrightarrow> u = dst \<or> is_copy t1 u"
    "next_of (join_copy t1 dst src) u = (if u = src then dst else if u = dst then next_of t1 src else next_of t1 u)"
    "prev_of (join_copy t1 dst src) u = (if u = next_of t1 src then dst else if u = dst then src else prev_of t1 u)"
  using assms
  by (auto simp add: ucast_links join_copy_def Let_def ucast16_round is_copy_def [of t1 src])

lemma join_copy_ring_inv:
  assumes inv: "ring_inv n t1" and n: "n \<le> 65536"
    and dst: "unat dst < n" "\<not> is_copy t1 dst" and src: "unat src < n" "dst \<noteq> src"
  shows "ring_inv n (join_copy t1 dst src)"
proof -
  note d = ring_invD [OF inv]
  have b: "unat dst < 65536" "unat src < 65536"
    using n dst src by simp_all
  show ?thesis
  proof (cases "is_copy t1 src")
    case False
    note j = join_copy_fresh [OF False src(2) b]
    have "next_of t1 u \<noteq> src \<and> next_of t1 u \<noteq> dst \<and> prev_of t1 u \<noteq> src \<and> prev_of t1 u \<noteq> dst"
      if "unat u < n" "is_copy t1 u" for u
      using d [OF that] False dst(2) by metis
    with inv dst src show ?thesis
      unfolding ring_inv_def j by auto
  next
    case True
    note ds = d [OF src(1) True]
    note j = join_copy_splice [OF True src(2) b dst(2) ds(3)]
    have o: "next_of t1 u \<noteq> dst \<and> prev_of t1 u \<noteq> dst
        \<and> (next_of t1 u = next_of t1 src \<longleftrightarrow> u = src)
        \<and> (prev_of t1 u = src \<longleftrightarrow> u = next_of t1 src)"
      if "unat u < n" "is_copy t1 u" for u
      using d [OF that] ds dst(2) by metis
    show ?thesis
      unfolding ring_inv_def j
    proof (intro allI impI)
      fix u assume "unat u < n \<and> (u = dst \<or> is_copy t1 u)"
      then consider "u = dst" | "unat u < n" "is_copy t1 u" "u \<noteq> dst"
        using dst by auto
      then show "unat (if u = src then dst else if u = dst then next_of t1 src else next_of t1 u) < n \<and>
         unat (if u = next_of t1 src then dst else if u = dst then src else prev_of t1 u) < n \<and>
         ((if u = src then dst else if u = dst then next_of t1 src else next_of t1 u) = dst \<or>
          is_copy t1 (if u = src then dst else if u = dst then next_of t1 src else next_of t1 u)) \<and>
         ((if u = next_of t1 src then dst else if u = dst then src else prev_of t1 u) = dst \<or>
          is_copy t1 (if u = next_of t1 src then dst else if u = dst then src else prev_of t1 u)) \<and>
         (if (if u = next_of t1 src then dst else if u = dst then src else prev_of t1 u) = src then dst
          else if (if u = next_of t1 src then dst else if u = dst then src else prev_of t1 u) = dst
               then next_of t1 src
               else next_of t1 (if u = next_of t1 src then dst else if u = dst then src else prev_of t1 u)) = u \<and>
         (if (if u = src then dst else if u = dst then next_of t1 src else next_of t1 u) = next_of t1 src then dst
          else if (if u = src then dst else if u = dst then next_of t1 src else next_of t1 u) = dst
               then src
               else prev_of t1 (if u = src then dst else if u = dst then next_of t1 src else next_of t1 u)) = u"
      proof cases
        case 1
        with ds dst src True show ?thesis by auto
      next
        case 2
        with o [OF 2(1,2)] d [OF 2(1,2)] ds dst src True show ?thesis by auto
      qed
    qed
  qed
qed

definition walk_inv :: "(TCGArg \<Rightarrow> bool) \<Rightarrow> (((TCGArg \<Rightarrow> TCGArg) \<times> (TCGArg \<Rightarrow> bool)) \<times> TCGArg) \<times> TCGArg \<Rightarrow> TCGArg option \<Rightarrow> bool" where
  "walk_inv Q a y \<longleftrightarrow>
     (case a of (((nxt, P), temp), i) \<Rightarrow>
       (\<forall>x. Q x \<longrightarrow> x \<noteq> temp \<longrightarrow> Q (nxt x)) \<longrightarrow> Q i \<longrightarrow> (\<forall>r. y = Some r \<longrightarrow> Q r \<and> P r))"

lemma copy_loop_found_aux:
  assumes "copy_loop nxt P temp i = Some y"
  shows "walk_inv Q (((nxt, P), temp), i) y"
proof (rule copy_loop.raw_induct [OF _ assms, where Pa = "walk_inv Q"])
  fix f :: "(TCGArg \<Rightarrow> TCGArg) \<Rightarrow> (TCGArg \<Rightarrow> bool) \<Rightarrow> TCGArg \<Rightarrow> TCGArg \<Rightarrow> TCGArg option option"
    and nxt P temp i y
  assume IH: "\<And>nxt P temp i y. f nxt P temp i = Some y \<Longrightarrow> walk_inv Q (((nxt, P), temp), i) y"
    and eq: "(if i = temp then Some None else if P i then Some (Some i) else f nxt P temp (nxt i)) = Some y"
  show "walk_inv Q (((nxt, P), temp), i) y"
  proof (cases "i = temp \<or> P i")
    case True
    with eq have "y = None \<or> (y = Some i \<and> P i)"
      by (auto split: if_splits)
    then show ?thesis
      unfolding walk_inv_def by blast
  next
    case False
    with eq have "f nxt P temp (nxt i) = Some y" by simp
    from IH [OF this] False show ?thesis
      unfolding walk_inv_def by blast
  qed
qed

lemma copy_loop_found:
  assumes "copy_loop nxt P temp i = Some (Some r)" "Q i"
    and "\<And>x. Q x \<Longrightarrow> x \<noteq> temp \<Longrightarrow> Q (nxt x)"
  shows "Q r \<and> P r"
  using copy_loop_found_aux [OF assms(1), of Q] assms(2,3)
  unfolding walk_inv_def by blast

lemma find_better_copy_bound:
  assumes inv: "ring_inv n tab" and t: "unat t < n" "is_copy tab t"
    and r: "find_better_copy s tab t = Inr r"
  shows "unat r < n"
proof -
  let ?Q = "\<lambda>x. unat x < n \<and> is_copy tab x"
  have start: "?Q (next_of tab t)"
    using ring_invD [OF inv t] by simp
  have step: "\<And>x. ?Q x \<Longrightarrow> x \<noteq> t \<Longrightarrow> ?Q (next_of tab x)"
    using inv by (auto dest: ring_invD)
  have found: "unat r' < n" if "copy_loop (next_of tab) P t (next_of tab t) = Some (Some r')" for P r'
    using copy_loop_found [OF that, of ?Q] start step by blast
  from r t show ?thesis
    by (auto simp add: find_better_copy_def split: if_splits option.splits dest: found)
qed

text \<open>The first \<open>k\<close> arguments of the operation at the read cursor name temps of the
  context.\<close>

definition temps_ok :: "nat \<Rightarrow> opt_state \<Rightarrow> nat \<Rightarrow> bool" where
  "temps_ok n st k \<longleftrightarrow> (\<forall>i. 0 \<le> i \<and> i < int k \<longrightarrow> unat (arg st i) < n)"

lemma temps_okD: "temps_ok n st k \<Longrightarrow> 0 \<le> i \<Longrightarrow> i < int k \<Longrightarrow> unat (arg st i) < n"
  by (simp add: temps_ok_def)

lemma arg_set_arg [simp]: "arg (set_arg st i v) j = (if j = i then v else arg st j)"
  by (simp add: arg_def set_arg_def)

lemma propagate_copies_temps_ok:
  assumes "propagate_copies s st is = Inr st'"
    and "ring_inv n (temps st)" "temps_ok n st k" "\<forall>i \<in> set is. 0 \<le> i \<and> i < int k"
  shows "temps_ok n st' k"
  using assms
proof (induction "is" arbitrary: st)
  case Nil
  then show ?case by simp
next
  case (Cons i "is")
  show ?case
  proof (cases "state (temps st (arg st i)) = TCG_TEMP_COPY")
    case False
    with Cons.prems Cons.IH [of st] show ?thesis by simp
  next
    case True
    with Cons.prems(1) obtain b where
      b: "find_better_copy s (temps st) (arg st i) = Inr b"
      and rest: "propagate_copies s (set_arg st i b) is = Inr st'"
      by (auto simp add: ebind_Inr)
    from Cons.prems(3,4) have "unat (arg st i) < n"
      by (simp add: temps_ok_def)
    with b True Cons.prems(2) have "unat b < n"
      by (auto intro: find_better_copy_bound simp add: is_copy_def)
    with Cons.prems(3) have "temps_ok n (set_arg st i b) k"
      by (simp add: temps_ok_def)
    with Cons.IH [OF rest] Cons.prems(2,4) show ?thesis by simp
  qed
qed

lemma swap_commutative_temps_ok:
  assumes "swap_commutative st dest i1 i2 = (st', b)" "temps_ok n st k"
    "0 \<le> i1" "i1 < int k" "0 \<le> i2" "i2 < int k"
  shows "temps_ok n st' k"
  using assms by (auto simp add: swap_commutative_def Let_def temps_ok_def split: if_splits)

lemma swap_commutative2_temps_ok:
  assumes "swap_commutative2 st i1 i2 = (st', b)" "temps_ok n st k"
    "0 \<le> i1" "i1 + 1 < int k" "0 \<le> i2" "i2 + 1 < int k"
  shows "temps_ok n st' k"
  using assms by (auto simp add: swap_commutative2_def Let_def temps_ok_def split: if_splits)

lemma set_arg_temps_ok:
  "temps_ok n st k \<Longrightarrow> int k \<le> i \<Longrightarrow> temps_ok n (set_arg st i v) k"
  by (simp add: temps_ok_def)

text \<open>
  The number of leading arguments, outputs then inputs, that the code of the driver
  takes to be temps, for each opcode it names.
\<close>

fun temp_args :: "TCGOpcode \<Rightarrow> nat option" where
  "temp_args (INDEX_op_mov _) = Some 2"
| "temp_args (INDEX_op_movi _) = Some 1"
| "temp_args (INDEX_op_add _) = Some 3"
| "temp_args (INDEX_op_sub _) = Some 3"
| "temp_args (INDEX_op_mul _) = Some 3"
| "temp_args (INDEX_op_and _) = Some 3"
| "temp_args (INDEX_op_or _) = Some 3"
| "temp_args (INDEX_op_xor _) = Some 3"
| "temp_args (INDEX_op_shl _) = Some 3"
| "temp_args (INDEX_op_shr _) = Some 3"
| "temp_args (INDEX_op_sar _) = Some 3"
| "temp_args (INDEX_op_rotl _) = Some 3"
| "temp_args (INDEX_op_rotr _) = Some 3"
| "temp_args (INDEX_op_not _) = Some 2"
| "temp_args (INDEX_op_neg _) = Some 2"
| "temp_args (INDEX_op_andc _) = Some 3"
| "temp_args (INDEX_op_orc _) = Some 3"
| "temp_args (INDEX_op_eqv _) = Some 3"
| "temp_args (INDEX_op_nand _) = Some 3"
| "temp_args (INDEX_op_nor _) = Some 3"
| "temp_args (INDEX_op_ext8s _) = Some 2"
| "temp_args (INDEX_op_ext16s _) = Some 2"
| "temp_args (INDEX_op_ext8u _) = Some 2"
| "temp_args (INDEX_op_ext16u _) = Some 2"
| "temp_args INDEX_op_ext32s_i64 = Some 2"
| "temp_args INDEX_op_ext32u_i64 = Some 2"
| "temp_args (INDEX_op_deposit _) = Some 3"
| "temp_args (INDEX_op_setcond _) = Some 3"
| "temp_args (INDEX_op_brcond _) = Some 2"
| "temp_args (INDEX_op_movcond _) = Some 5"
| "temp_args INDEX_op_add2_i32 = Some 6"
| "temp_args INDEX_op_sub2_i32 = Some 6"
| "temp_args INDEX_op_mulu2_i32 = Some 4"
| "temp_args INDEX_op_brcond2_i32 = Some 4"
| "temp_args INDEX_op_setcond2_i32 = Some 5"
| "temp_args _ = None"

lemma swap_commutative_fst_temps_ok:
  assumes "temps_ok n st k" "0 \<le> i1" "i1 < int k" "0 \<le> i2" "i2 < int k"
  shows "temps_ok n (fst (swap_commutative st dest i1 i2)) k"
  using swap_commutative_temps_ok [OF _ assms] by (metis prod.collapse)

lemma canonicalize_temps_ok:
  assumes "temps_ok n st k" "temp_args op = Some k"
  shows "temps_ok n (canonicalize op st) k"
  using assms
  by (cases op; simp add: Let_def split: prod.splits)
     (auto intro!: set_arg_temps_ok swap_commutative_fst_temps_ok
        elim!: swap_commutative_temps_ok swap_commutative2_temps_ok)

section \<open>The driver keeps the rings well-formed\<close>

lemma set_state_ring_inv:
  assumes "ring_inv n tab" "\<not> is_copy tab t" "v \<noteq> TCG_TEMP_COPY"
  shows "ring_inv n (set_state tab t v)"
proof -
  have "next_of tab u \<noteq> t \<and> prev_of tab u \<noteq> t" if "unat u < n" "is_copy tab u" for u
    using ring_invD [OF assms(1) that] assms(2) by metis
  with assms show ?thesis
    unfolding ring_inv_def by simp
qed

lemma set_val_ring_inv: "ring_inv n tab \<Longrightarrow> ring_inv n (set_val tab t v)"
  by (simp add: ring_inv_def)

lemma memset_ring_inv: "ring_inv n (memset_temps n tab)"
  by (simp add: ring_inv_def memset_temps_def is_copy_def)

lemma reset_temp_not_copy_after: "\<not> is_copy (reset_temp tab t) t"
  using reset_temp_is_copy by blast

lemma tcg_opt_gen_movi_temps:
  "temps (tcg_opt_gen_movi st g dst v)
   = set_val (set_state (reset_temp (temps st) dst) dst TCG_TEMP_CONST) dst v"
  by (simp add: tcg_opt_gen_movi_def Let_def)

lemma tcg_opt_gen_movi_ring:
  assumes "ring_inv n (temps st)" "unat dst < n"
  shows "ring_inv n (temps (tcg_opt_gen_movi st g dst v))"
  unfolding tcg_opt_gen_movi_temps
  using assms
  by (intro set_val_ring_inv set_state_ring_inv reset_temp_ring_inv reset_temp_not_copy_after)
     simp_all

lemma tcg_opt_gen_mov_ring:
  assumes "tcg_opt_gen_mov s st g dst src = Inr st'"
    and "ring_inv n (temps st)" "n \<le> 65536" "unat dst < n" "unat src < n" "dst \<noteq> src"
  shows "ring_inv n (temps st')"
  unfolding tcg_opt_gen_mov_temps(1) [OF assms(1)]
  using assms(2-)
  by (auto intro!: join_copy_ring_inv reset_temp_ring_inv reset_temp_not_copy_after)

lemma temps_are_copies_False:
  "temps_are_copies tab a b = Inr False \<Longrightarrow> a \<noteq> b"
  by (auto simp add: temps_are_copies_def)

lemma reset_args_ring:
  assumes "ring_inv n (temps st)" "temps_ok n st k" "m \<le> k"
  shows "ring_inv n (reset_args st m)"
  using assms(3)
proof (induction m)
  case 0
  with assms show ?case by (simp add: reset_args_def)
next
  case (Suc m)
  then have "ring_inv n (reset_args st m)" by simp
  moreover have "unat (arg st (int m)) < n"
    using assms(2) Suc.prems by (simp add: temps_ok_def)
  ultimately show ?case
    by (simp add: reset_args_def reset_temp_ring_inv)
qed

text \<open>The hypotheses every case of the driver needs, in one predicate: the rings of the
  table are well-formed, and the first \<open>k\<close> arguments of the operation are temps of a
  context of \<open>n\<close> temps.\<close>

definition ready :: "nat \<Rightarrow> nat \<Rightarrow> opt_state \<Rightarrow> bool" where
  "ready n k st \<longleftrightarrow> ring_inv n (temps st) \<and> n \<le> 65536 \<and> temps_ok n st k"

lemma readyD:
  assumes "ready n k st"
  shows "ring_inv n (temps st)" "n \<le> 65536" "temps_ok n st k"
    "\<And>i. 0 \<le> i \<Longrightarrow> i < int k \<Longrightarrow> unat (arg st i) < n"
  using assms by (simp_all add: ready_def temps_ok_def)

lemma movi_result_ring:
  assumes "ready n k st" "1 \<le> k" "temps st1 = temps st"
  shows "ring_inv n (temps (tcg_opt_gen_movi st1 g (arg st 0) v))"
  using assms readyD(4) [OF assms(1), of 0]
  by (simp add: tcg_opt_gen_movi_ring ready_def)

lemma mov_result_ring:
  assumes "ready n k st" "1 \<le> k" "0 \<le> i" "i < int k" "temps st1 = temps st"
    and "temps_are_copies (temps st) (arg st 0) (arg st i) = Inr False"
    and "tcg_opt_gen_mov s st1 g (arg st 0) (arg st i) = Inr st2"
  shows "ring_inv n (temps st2)"
proof -
  have b: "unat (arg st 0) < n" "unat (arg st i) < n"
    using readyD(4) [OF assms(1)] assms(2-4) by simp_all
  from tcg_opt_gen_mov_ring [OF assms(7), of n] b readyD(1,2) [OF assms(1)]
    temps_are_copies_False [OF assms(6)] assms(5)
  show ?thesis by simp
qed

lemma emit_movi_ring:
  assumes "emit_movi d op st v a = Inr st'" "ready n k st" "1 \<le> k"
  shows "ring_inv n (temps st')"
  using assms(1) movi_result_ring [OF assms(2,3)]
  by (auto simp add: emit_movi_def ebind_Inr)

lemma emit_mov_ring:
  assumes "emit_mov s d op st i a = Inr st'" "ready n k st" "1 \<le> k" "0 \<le> i" "i < int k"
  shows "ring_inv n (temps st')"
proof (cases "temps_are_copies (temps st) (arg st 0) (arg st i)")
  case (Inl e)
  with assms(1) show ?thesis by (simp add: emit_mov_def ebind_def)
next
  case (Inr c)
  show ?thesis
  proof (cases c)
    case True
    with Inr assms(1,2) show ?thesis
      by (auto simp add: emit_mov_def ebind_def ready_def)
  next
    case False
    with Inr assms(1) obtain mov st1 where
      "tcg_opt_gen_mov s (set_opc st mov) 0 (arg st 0) (arg st i) = Inr st1" "temps st' = temps st1"
      by (auto simp add: emit_mov_def ebind_def split: sum.splits)
    with mov_result_ring [OF assms(2-5), of "set_opc st mov" s 0 st1] Inr False
    show ?thesis by simp
  qed
qed

lemma do_default_ring:
  assumes "do_default s d op st = Inr st'" "ready (nb_temps s) k st" "nb_oargs (d op) \<le> k"
  shows "ring_inv (nb_temps s) (temps st')"
  using assms
  by (auto simp add: do_default_def Let_def ready_def memset_ring_inv intro: reset_args_ring)

lemma fold_mov_ring:
  assumes "fold_mov s d op st = Inr st'" "ready n k st" "2 \<le> k"
  shows "ring_inv n (temps st')"
proof (cases "temps_are_copies (temps st) (arg st 0) (arg st 1)")
  case (Inl e)
  with assms(1) show ?thesis by (simp add: fold_mov_def ebind_def)
next
  case (Inr c)
  from assms(3) have k: "1 \<le> k" "(1::int) < int k" by simp_all
  show ?thesis
  proof (cases c)
    case True
    with Inr assms(1,2) show ?thesis
      by (auto simp add: fold_mov_def ebind_def ready_def)
  next
    case False
    show ?thesis
    proof (cases "state (temps st (arg st 1)) \<noteq> TCG_TEMP_CONST")
      case True
      with Inr False assms(1) obtain st1 where
        "tcg_opt_gen_mov s st 0 (arg st 0) (arg st 1) = Inr st1" "temps st' = temps st1"
        by (auto simp add: fold_mov_def ebind_def split: sum.splits)
      with mov_result_ring [OF assms(2) k(1) _ k(2), of st s 0 st1] Inr False
      show ?thesis by simp
    next
      case c: False
      with Inr False assms(1) movi_result_ring [OF assms(2) k(1)] show ?thesis
        by (auto simp add: fold_mov_def ebind_def Let_def split: sum.splits)
    qed
  qed
qed

lemma fold_movi_ring:
  assumes "fold_movi st = Inr st'" "ready n k st" "1 \<le> k"
  shows "ring_inv n (temps st')"
  using assms(1) movi_result_ring [OF assms(2,3)]
  by (auto simp add: fold_movi_def)

lemma fold_unary_ring:
  assumes "fold_unary s d op st = Inr st'" "ready (nb_temps s) k st" "1 \<le> k" "nb_oargs (d op) \<le> k"
  shows "ring_inv (nb_temps s) (temps st')"
  using assms(1) movi_result_ring [OF assms(2,3)] do_default_ring [where d = d and op = op, OF _ assms(2,4)]
  by (auto simp add: fold_unary_def ebind_Inr split: if_splits)

lemma fold_binary_ring:
  assumes "fold_binary s d op st = Inr st'" "ready (nb_temps s) k st" "1 \<le> k" "nb_oargs (d op) \<le> k"
  shows "ring_inv (nb_temps s) (temps st')"
  using assms(1) movi_result_ring [OF assms(2,3)] do_default_ring [where d = d and op = op, OF _ assms(2,4)]
  by (auto simp add: fold_binary_def ebind_Inr split: if_splits)

lemma fold_deposit_ring:
  assumes "fold_deposit s d op st = Inr st'" "ready (nb_temps s) k st" "1 \<le> k" "nb_oargs (d op) \<le> k"
  shows "ring_inv (nb_temps s) (temps st')"
  using assms(1) movi_result_ring [OF assms(2,3)] do_default_ring [where d = d and op = op, OF _ assms(2,4)]
  by (auto simp add: fold_deposit_def ebind_Inr split: if_splits)

lemma fold_setcond_ring:
  assumes "fold_setcond s d op st = Inr st'" "ready (nb_temps s) k st" "1 \<le> k" "nb_oargs (d op) \<le> k"
  shows "ring_inv (nb_temps s) (temps st')"
  using assms(1) movi_result_ring [OF assms(2,3)] do_default_ring [where d = d and op = op, OF _ assms(2,4)]
  by (auto simp add: fold_setcond_def ebind_Inr split: if_splits)

lemma fold_branch_ring:
  "ring_inv (nb_temps s) (temps st) \<Longrightarrow> ring_inv (nb_temps s) (temps (fold_branch s st tmp i))"
  by (simp add: fold_branch_def memset_ring_inv)

lemma fold_brcond_ring:
  assumes "fold_brcond s d op st = Inr st'" "ready (nb_temps s) k st" "nb_oargs (d op) \<le> k"
  shows "ring_inv (nb_temps s) (temps st')"
  using assms(1) do_default_ring [where d = d and op = op, OF _ assms(2,3)] fold_branch_ring [OF readyD(1) [OF assms(2)]]
  by (auto simp add: fold_brcond_def ebind_Inr split: if_splits)

lemma bool_arg_range: "bool_arg r = Inr tmp \<Longrightarrow> tmp = 0 \<or> tmp = 1"
  by (auto simp add: bool_arg_def split: sum.splits if_splits)

lemma do_constant_folding_cond_range:
  assumes "do_constant_folding_cond d tab op x y c = Inr tmp"
  shows "tmp = 0 \<or> tmp = 1 \<or> tmp = 2"
  using assms
  by (auto simp add: do_constant_folding_cond_def ebind_Inr
      split: if_splits option.splits TCGCond.splits dest: bool_arg_range)

lemma fold_movcond_ring:
  assumes "fold_movcond s d op st = Inr st'" "ready (nb_temps s) k st" "5 \<le> k" "nb_oargs (d op) \<le> k"
  shows "ring_inv (nb_temps s) (temps st')"
proof -
  from assms(3) have k: "1 \<le> k" by simp
  from assms(1) obtain tmp where
    tmp: "do_constant_folding_cond d (temps st) op (arg st 1) (arg st 2) (arg st 5) = Inr tmp"
    by (auto simp add: fold_movcond_def ebind_Inr)
  show ?thesis
  proof (cases "tmp = 2")
    case True
    with assms(1) tmp do_default_ring [where d = d and op = op, OF _ assms(2,4)] show ?thesis
      by (simp add: fold_movcond_def ebind_def)
  next
    case False
    define i where "i = 4 - uint tmp"
    from False do_constant_folding_cond_range [OF tmp] have "tmp = 0 \<or> tmp = 1"
      by simp
    then have i: "0 \<le> i" "i < int k"
      using assms(3) by (auto simp add: i_def)
    show ?thesis
    proof (cases "temps_are_copies (temps st) (arg st 0) (arg st i)")
      case (Inl e)
      with assms(1) tmp False show ?thesis
        by (simp add: fold_movcond_def ebind_def Let_def i_def)
    next
      case (Inr c)
      show ?thesis
      proof (cases "c \<or> state (temps st (arg st i)) = TCG_TEMP_CONST")
        case True
        with Inr assms(1) tmp False movi_result_ring [OF assms(2) k] readyD(1) [OF assms(2)]
        show ?thesis
          by (auto simp add: fold_movcond_def ebind_Inr Let_def i_def split: if_splits)
      next
        case nc: False
        with Inr assms(1) tmp False obtain mov st1 where
          "tcg_opt_gen_mov s (set_opc st mov) 0 (arg st 0) (arg st i) = Inr st1"
          "temps st' = temps st1"
          by (auto simp add: fold_movcond_def ebind_def Let_def i_def split: sum.splits)
        with mov_result_ring [OF assms(2) k i, of "set_opc st mov" s 0 st1] Inr nc
        show ?thesis by simp
      qed
    qed
  qed
qed

lemma emit_movi2_ring:
  assumes "emit_movi2 st r a = Inr st'" "ready n k st" "2 \<le> k"
  shows "ring_inv n (temps st')"
proof -
  have b: "unat (arg st 0) < n" "unat (arg st 1) < n"
    using readyD(4) [OF assms(2)] assms(3) by simp_all
  from assms(1) obtain st2 v w where
    "temps st2 = temps st"
    "temps st' = temps (tcg_opt_gen_movi (tcg_opt_gen_movi st2 0 (arg st 0) v) 2 (arg st 1) w)"
    by (auto simp add: emit_movi2_def Let_def tcg_opt_gen_movi_temps split: if_splits)
  with b readyD(1) [OF assms(2)] show ?thesis
    by (simp add: tcg_opt_gen_movi_ring)
qed

lemma fold_add2_sub2_ring:
  assumes "fold_add2_sub2 s d op st = Inr st'" "ready (nb_temps s) k st" "2 \<le> k" "nb_oargs (d op) \<le> k"
  shows "ring_inv (nb_temps s) (temps st')"
  using assms(1) do_default_ring [where d = d and op = op, OF _ assms(2,4)]
    emit_movi2_ring [OF _ assms(2,3)]
  by (auto simp add: fold_add2_sub2_def Let_def split: if_splits)

lemma fold_mulu2_ring:
  assumes "fold_mulu2 s d op st = Inr st'" "ready (nb_temps s) k st" "2 \<le> k" "nb_oargs (d op) \<le> k"
  shows "ring_inv (nb_temps s) (temps st')"
  using assms(1) do_default_ring [where d = d and op = op, OF _ assms(2,4)]
    emit_movi2_ring [OF _ assms(2,3)]
  by (auto simp add: fold_mulu2_def Let_def split: if_splits)

lemma fold_brcond2_ring:
  assumes "fold_brcond2 s d op st = Inr st'" "ready (nb_temps s) k st" "nb_oargs (d op) \<le> k"
  shows "ring_inv (nb_temps s) (temps st')"
  using assms(1) do_default_ring [where d = d and op = op, OF _ assms(2,3)]
    fold_branch_ring [OF readyD(1) [OF assms(2)]]
  by (auto simp add: fold_brcond2_def ebind_Inr Let_def memset_ring_inv split: if_splits)

lemma fold_setcond2_ring:
  assumes "fold_setcond2 s d op st = Inr st'" "ready (nb_temps s) k st" "1 \<le> k" "nb_oargs (d op) \<le> k"
  shows "ring_inv (nb_temps s) (temps st')"
  using assms(1) do_default_ring [where d = d and op = op, OF _ assms(2,4)]
    movi_result_ring [OF assms(2,3)] readyD(1) [OF assms(2)]
  by (auto simp add: fold_setcond2_def ebind_Inr Let_def split: if_splits)

text \<open>
  The table of opcodes agrees with the code of the driver: for each opcode the driver
  names, outputs and inputs together are the leading arguments its code takes to be
  temps.
\<close>

definition defs_ok :: "op_defs \<Rightarrow> bool" where
  "defs_ok d \<longleftrightarrow>
     (\<forall>op k. temp_args op = Some k \<longrightarrow> nb_oargs (d op) + nb_iargs (d op) = k)"

lemma fold_op_class:
  "temp_args op = Some 2 \<and> fold_op s d op st = fold_mov s d op st
   \<or> temp_args op = Some 1 \<and> fold_op s d op st = fold_movi st
   \<or> temp_args op = Some 2 \<and> fold_op s d op st = fold_unary s d op st
   \<or> temp_args op = Some 3 \<and> fold_op s d op st = fold_binary s d op st
   \<or> temp_args op = Some 3 \<and> fold_op s d op st = fold_deposit s d op st
   \<or> temp_args op = Some 3 \<and> fold_op s d op st = fold_setcond s d op st
   \<or> temp_args op = Some 2 \<and> fold_op s d op st = fold_brcond s d op st
   \<or> temp_args op = Some 5 \<and> fold_op s d op st = fold_movcond s d op st
   \<or> temp_args op = Some 6 \<and> fold_op s d op st = fold_add2_sub2 s d op st
   \<or> temp_args op = Some 4 \<and> fold_op s d op st = fold_mulu2 s d op st
   \<or> temp_args op = Some 4 \<and> fold_op s d op st = fold_brcond2 s d op st
   \<or> temp_args op = Some 5 \<and> fold_op s d op st = fold_setcond2 s d op st
   \<or> op = INDEX_op_call \<and> fold_op s d op st = fold_call s st
   \<or> temp_args op = None \<and> fold_op s d op st = do_default s d op st"
  by (cases op) simp_all

lemma fold_op_ring:
  assumes f: "fold_op s d op st = Inr st'" and "op \<noteq> INDEX_op_call"
    and r: "ready (nb_temps s) (nb_oargs (d op) + nb_iargs (d op)) st"
    and "defs_ok d"
  shows "ring_inv (nb_temps s) (temps st')"
proof -
  have k: "nb_oargs (d op) + nb_iargs (d op) = k" if "temp_args op = Some k" for k
    using that assms(4) by (simp add: defs_ok_def)
  have o: "nb_oargs (d op) \<le> nb_oargs (d op) + nb_iargs (d op)"
    by simp
  from fold_op_class [of op s d st] assms(2) f show ?thesis
  proof (elim disjE conjE)
    assume "temp_args op = Some 2" "fold_op s d op st = fold_mov s d op st"
    with f k fold_mov_ring [OF _ r] show ?thesis by simp
  next
    assume "temp_args op = Some 1" "fold_op s d op st = fold_movi st"
    with f k fold_movi_ring [OF _ r] show ?thesis by simp
  next
    assume "temp_args op = Some 2" "fold_op s d op st = fold_unary s d op st"
    with f k fold_unary_ring [where d = d and op = op, OF _ r _ o] show ?thesis by simp
  next
    assume "temp_args op = Some 3" "fold_op s d op st = fold_binary s d op st"
    with f k fold_binary_ring [where d = d and op = op, OF _ r _ o] show ?thesis by simp
  next
    assume "temp_args op = Some 3" "fold_op s d op st = fold_deposit s d op st"
    with f k fold_deposit_ring [where d = d and op = op, OF _ r _ o] show ?thesis by simp
  next
    assume "temp_args op = Some 3" "fold_op s d op st = fold_setcond s d op st"
    with f k fold_setcond_ring [where d = d and op = op, OF _ r _ o] show ?thesis by simp
  next
    assume "temp_args op = Some 2" "fold_op s d op st = fold_brcond s d op st"
    with f k fold_brcond_ring [where d = d and op = op, OF _ r o] show ?thesis by simp
  next
    assume "temp_args op = Some 5" "fold_op s d op st = fold_movcond s d op st"
    with f k fold_movcond_ring [where d = d and op = op, OF _ r _ o] show ?thesis by simp
  next
    assume "temp_args op = Some 6" "fold_op s d op st = fold_add2_sub2 s d op st"
    with f k fold_add2_sub2_ring [where d = d and op = op, OF _ r _ o] show ?thesis by simp
  next
    assume "temp_args op = Some 4" "fold_op s d op st = fold_mulu2 s d op st"
    with f k fold_mulu2_ring [where d = d and op = op, OF _ r _ o] show ?thesis by simp
  next
    assume "temp_args op = Some 4" "fold_op s d op st = fold_brcond2 s d op st"
    with f k fold_brcond2_ring [where d = d and op = op, OF _ r o] show ?thesis by simp
  next
    assume "temp_args op = Some 5" "fold_op s d op st = fold_setcond2 s d op st"
    with f k fold_setcond2_ring [where d = d and op = op, OF _ r _ o] show ?thesis by simp
  next
    assume "temp_args op = None" "fold_op s d op st = do_default s d op st"
    with f do_default_ring [where d = d and op = op, OF _ r o] show ?thesis by simp
  qed simp
qed

lemma sint32_small:
  fixes z :: "32 word"
  assumes "unat z < 2 ^ 31"
  shows "sint z = int (unat z)"
proof -
  from assms have "int (unat z) < 2 ^ 31"
    by (metis of_nat_less_iff of_nat_numeral of_nat_power)
  then have "uint z < 2 ^ 31"
    by simp
  moreover have "0 \<le> uint z"
    by simp
  ultimately have u: "uint z < 2 ^ 31" "- (2 ^ 31) \<le> uint z"
    by linarith+
  have "sint z = signed_take_bit 31 (uint z)"
    using sint_uint [of z] by simp
  also have "\<dots> = uint z"
    using u by (simp only: signed_take_bit_int_eq_self_iff)
  finally show ?thesis by simp
qed

lemma unat_ucast32:
  fixes x :: "64 word"
  assumes "unat x < 2 ^ 32"
  shows "unat (ucast x :: 32 word) = unat x"
  using assms by (simp add: unsigned_ucast_eq take_bit_nat_eq_self)

lemma call_fields:
  fixes a0 :: "64 word"
  assumes "unat a0 < 2 ^ 31"
  shows "unat (drop_bit 16 a0) < 2 ^ 15" "unat (a0 AND 0xffff) < 2 ^ 16"
proof -
  have "unat (drop_bit 16 a0) = drop_bit 16 (unat a0)"
    by (rule unat_drop_bit_eq)
  also have "\<dots> = unat a0 div 2 ^ 16"
    by (rule drop_bit_eq_div)
  finally have "unat (drop_bit 16 a0) = unat a0 div 2 ^ 16" .
  with assms show "unat (drop_bit 16 a0) < 2 ^ 15"
    by simp
  have "(0xffff :: 64 word) = mask 16" by (simp add: mask_eq_exp_minus_1)
  then have "a0 AND 0xffff = take_bit 16 a0" by (simp add: take_bit_eq_mask)
  then have "unat (a0 AND 0xffff) = take_bit 16 (unat a0)"
    by (simp only: unsigned_take_bit_eq)
  also have "\<dots> = unat a0 mod 2 ^ 16"
    by (rule take_bit_eq_mod)
  finally show "unat (a0 AND 0xffff) < 2 ^ 16"
    by simp
qed

lemma unat_add32:
  fixes x y :: "32 word"
  assumes "unat x + unat y < 2 ^ 32"
  shows "unat (x + y) = unat x + unat y"
  using assms unat_add_lem [of x y] by simp

text \<open>The arguments at the offsets \<open>S\<close> name temps of a context of \<open>n\<close> temps.\<close>

definition args_in :: "nat \<Rightarrow> opt_state \<Rightarrow> int set \<Rightarrow> bool" where
  "args_in n st S \<longleftrightarrow> (\<forall>i \<in> S. unat (arg st i) < n)"

lemma temps_ok_args_in: "temps_ok n st k \<longleftrightarrow> args_in n st {0..<int k}"
  by (auto simp add: temps_ok_def args_in_def)

lemma propagate_copies_args_in:
  assumes "propagate_copies s st is = Inr st'"
    and "ring_inv n (temps st)" "args_in n st S" "set is \<subseteq> S"
  shows "args_in n st' S \<and> (\<forall>j. j \<notin> set is \<longrightarrow> arg st' j = arg st j)"
  using assms
proof (induction "is" arbitrary: st)
  case Nil
  then show ?case by simp
next
  case (Cons i "is")
  show ?case
  proof (cases "state (temps st (arg st i)) = TCG_TEMP_COPY")
    case False
    with Cons.prems Cons.IH [of st] show ?thesis by simp
  next
    case True
    with Cons.prems(1) obtain b where
      b: "find_better_copy s (temps st) (arg st i) = Inr b"
      and rest: "propagate_copies s (set_arg st i b) is = Inr st'"
      by (auto simp add: ebind_Inr)
    from Cons.prems(3,4) have "unat (arg st i) < n"
      by (simp add: args_in_def)
    with b True Cons.prems(2) have "unat b < n"
      by (auto intro: find_better_copy_bound simp add: is_copy_def)
    with Cons.prems(3) have "args_in n (set_arg st i b) S"
      by (simp add: args_in_def)
    with Cons.IH [OF rest] Cons.prems(2,4) show ?thesis by simp
  qed
qed

text \<open>
  A well-formed call: the first argument packs two small counts, and the arguments
  after it, as many as the two counts together, are temps of the context.
\<close>

definition call_ok :: "nat \<Rightarrow> opt_state \<Rightarrow> bool" where
  "call_ok n st \<longleftrightarrow>
     unat (arg st 0) < 2 ^ 31
     \<and> args_in n st {1 .. int (unat (drop_bit 16 (arg st 0)) + unat (arg st 0 AND 0xffff))}"

lemma call_positions:
  fixes a0 :: "64 word"
  assumes "unat a0 < 2 ^ 31"
  shows "sint (call_nb_oargs a0 + 1) = int (unat (drop_bit 16 a0)) + 1"
    and "sint (call_nb_oargs a0 + call_nb_iargs a0 + 1)
         = int (unat (drop_bit 16 a0) + unat (a0 AND 0xffff)) + 1"
proof -
  note f = call_fields [OF assms]
  have o: "unat (call_nb_oargs a0) = unat (drop_bit 16 a0)"
    unfolding call_nb_oargs_def using f(1) by (intro unat_ucast32) simp
  have i: "unat (call_nb_iargs a0) = unat (a0 AND 0xffff)"
    unfolding call_nb_iargs_def using f(2) by (intro unat_ucast32) simp
  have 1: "unat (call_nb_oargs a0 + 1) = unat (drop_bit 16 a0) + 1"
    using o f(1) unat_add32 [of "call_nb_oargs a0" 1] by simp
  have 2: "unat (call_nb_oargs a0 + call_nb_iargs a0) = unat (drop_bit 16 a0) + unat (a0 AND 0xffff)"
    using o i f unat_add32 [of "call_nb_oargs a0" "call_nb_iargs a0"] by simp
  have 3: "unat (call_nb_oargs a0 + call_nb_iargs a0 + 1)
      = unat (drop_bit 16 a0) + unat (a0 AND 0xffff) + 1"
    using 2 f unat_add32 [of "call_nb_oargs a0 + call_nb_iargs a0" 1] by simp
  show "sint (call_nb_oargs a0 + 1) = int (unat (drop_bit 16 a0)) + 1"
    using 1 f(1) sint32_small [of "call_nb_oargs a0 + 1"] by simp
  show "sint (call_nb_oargs a0 + call_nb_iargs a0 + 1)
         = int (unat (drop_bit 16 a0) + unat (a0 AND 0xffff)) + 1"
    using 3 f sint32_small [of "call_nb_oargs a0 + call_nb_iargs a0 + 1"] by simp
qed

lemma copy_propagation_call:
  assumes "copy_propagation s d INDEX_op_call st = Inr st'"
    and "ring_inv n (temps st)" "call_ok n st"
  shows "call_ok n st'"
proof -
  define no where "no = unat (drop_bit 16 (arg st 0))"
  define ni where "ni = unat (arg st 0 AND 0xffff)"
  from assms(3) have a: "unat (arg st 0) < 2 ^ 31" and b: "args_in n st {1 .. int (no + ni)}"
    by (simp_all add: call_ok_def no_def ni_def)
  note p = call_positions [OF a, folded no_def ni_def]
  from assms(1) have pc: "propagate_copies s st [int no + 1 .. int (no + ni)] = Inr st'"
    by (simp add: copy_propagation_def p)
  have sub: "set [int no + 1 .. int (no + ni)] \<subseteq> {1 .. int (no + ni)}"
    by auto
  have "(0::int) \<notin> set [int no + 1 .. int (no + ni)]"
    by simp
  with propagate_copies_args_in [OF pc assms(2) b sub]
  have "args_in n st' {1 .. int (no + ni)}" "arg st' 0 = arg st 0"
    by blast+
  with a show ?thesis
    by (simp add: call_ok_def no_def ni_def)
qed

lemma fold_reset_ring:
  assumes "ring_inv n tab" "\<forall>i < m. unat (f i) < n"
  shows "ring_inv n (fold (\<lambda>i tab. reset_temp tab (f i)) [0..<m] tab)"
  using assms(2)
proof (induction m)
  case 0
  with assms(1) show ?case by simp
next
  case (Suc m)
  then show ?case by (simp add: reset_temp_ring_inv)
qed

lemma fold_call_ring:
  assumes "fold_call s st = Inr st'" "ring_inv n (temps st)" "call_ok n st"
    and "nb_globals s \<le> n" "n \<le> 65536"
  shows "ring_inv n (temps st')"
proof -
  define no where "no = unat (drop_bit 16 (arg st 0))"
  define ni where "ni = unat (arg st 0 AND 0xffff)"
  from assms(3) have a: "unat (arg st 0) < 2 ^ 31" and b: "args_in n st {1 .. int (no + ni)}"
    by (simp_all add: call_ok_def no_def ni_def)
  note f = call_fields [OF a, folded no_def ni_def]
  have g: "\<forall>i < nb_globals s. unat (of_nat i :: 64 word) < n"
    using assms(4,5) by (auto simp add: unat_of_nat)
  have m: "min (unat (drop_bit 16 (arg st 0))) 2147483648 = no"
    using f(1) by (simp add: no_def)
  have outs: "\<forall>i < no. unat (arg st (sint (of_nat i + 1 :: 32 word))) < n"
  proof (intro allI impI)
    fix i assume i: "i < no"
    with f(1) have "unat (of_nat i :: 32 word) = i"
      by (simp add: unat_of_nat)
    with i f(1) have "unat (of_nat i + 1 :: 32 word) = i + 1"
      using unat_add32 [of "of_nat i" 1] by simp
    with i f(1) have "sint (of_nat i + 1 :: 32 word) = int i + 1"
      using sint32_small [of "of_nat i + 1"] by simp
    moreover from i have "int i + 1 \<in> {1 .. int (no + ni)}"
      by simp
    ultimately show "unat (arg st (sint (of_nat i + 1 :: 32 word))) < n"
      using b unfolding args_in_def by metis
  qed
  define tab1 where "tab1 =
    (if arg st (sint ((ucast (drop_bit 16 (arg st 0) + (arg st 0 AND 0xffff)) :: 32 word) + 1))
          AND (TCG_CALL_NO_READ_GLOBALS OR TCG_CALL_NO_WRITE_GLOBALS) = 0
     then fold (\<lambda>i tab. reset_temp tab (of_nat i)) [0..<nb_globals s] (temps st)
     else temps st)"
  have "ring_inv n tab1"
    unfolding tab1_def using fold_reset_ring [OF assms(2) g] assms(2) by simp
  from fold_reset_ring [OF this outs] assms(1) show ?thesis
    by (auto simp add: fold_call_def Let_def m tab1_def)
qed

lemma family_temp_args:
  "is_shift_rot op \<or> is_mov_zero_op op \<or> is_and_mul op \<or> is_or_and op \<or> is_sub_xor op
   \<Longrightarrow> temp_args op = Some 3"
  by (cases op) simp_all

lemma simplify_cases:
  assumes "simplify s d op st = Inr st'"
  obtains "is_shift_rot op \<or> is_and_mul op \<or> is_sub_xor op" "emit_movi d op st 0 3 = Inr st'"
    | "is_mov_zero_op op \<or> is_or_and op" "emit_mov s d op st 1 3 = Inr st'"
    | "fold_op s d op st = Inr st'"
  using assms
  by (auto simp add: simplify_def simplify_shift_of_zero_def simplify_op_zero_mov_def
        simplify_op_zero_movi_def simplify_op_same_mov_def simplify_op_same_movi_def
      split: option.splits if_splits sum.splits)

lemma simplify_ring:
  assumes "simplify s d op st = Inr st'" "op \<noteq> INDEX_op_call"
    and r: "ready (nb_temps s) (nb_oargs (d op) + nb_iargs (d op)) st"
    and "defs_ok d"
  shows "ring_inv (nb_temps s) (temps st')"
  using assms(1)
proof (cases rule: simplify_cases)
  case 1
  then have "temp_args op = Some 3"
    by (auto intro: family_temp_args)
  with assms(4) have "nb_oargs (d op) + nb_iargs (d op) = 3"
    by (simp add: defs_ok_def)
  with emit_movi_ring [OF 1(2) r] show ?thesis by simp
next
  case 2
  then have "temp_args op = Some 3"
    by (auto intro: family_temp_args)
  with assms(4) have "nb_oargs (d op) + nb_iargs (d op) = 3"
    by (simp add: defs_ok_def)
  with emit_mov_ring [OF 2(2) r] show ?thesis by simp
next
  case 3
  from fold_op_ring [OF this assms(2) r assms(4)] show ?thesis .
qed

lemma canonicalize_no_temp_args: "temp_args op = None \<Longrightarrow> canonicalize op st = st"
  by (cases op) simp_all

lemma simplify_call: "simplify s d INDEX_op_call st = fold_call s st"
  by (simp add: simplify_def simplify_shift_of_zero_def simplify_op_zero_mov_def
        simplify_op_zero_movi_def simplify_op_same_mov_def simplify_op_same_movi_def)

text \<open>
  A well-formed operation at the read cursor: every argument in a temp position names a
  temp of the context. For a call the positions are given by its first argument, for
  every other opcode by the table.
\<close>

definition wf_op :: "TCGContext \<Rightarrow> op_defs \<Rightarrow> opt_state \<Rightarrow> bool" where
  "wf_op s d st =
     (let op = gen_opc_buf st (op_index st) in
      if op = INDEX_op_call then call_ok (nb_temps s) st
      else temps_ok (nb_temps s) st (nb_oargs (d op) + nb_iargs (d op)))"

lemma tcg_step_ring:
  assumes step: "tcg_step s d st = Inr st'"
    and inv: "ring_inv (nb_temps s) (temps st)"
    and n: "nb_temps s \<le> 65536" "nb_globals s \<le> nb_temps s"
    and d: "defs_ok d" and wf: "wf_op s d st"
  shows "ring_inv (nb_temps s) (temps st')"
proof -
  define op where "op = gen_opc_buf st (op_index st)"
  from step obtain st1 where
    cp: "copy_propagation s d op st = Inr st1"
    and si: "simplify s d op (canonicalize op st1) = Inr st'"
    by (auto simp add: tcg_step_def Let_def ebind_Inr op_def)
  note p = copy_propagation_proj [OF cp]
  show ?thesis
  proof (cases "op = INDEX_op_call")
    case True
    with wf have "call_ok (nb_temps s) st"
      by (simp add: wf_op_def op_def Let_def)
    with cp True inv have "call_ok (nb_temps s) st1"
      by (auto intro: copy_propagation_call)
    moreover from si True have "fold_call s st1 = Inr st'"
      by (simp add: simplify_call)
    ultimately show ?thesis
      using inv n p(4) by (auto intro: fold_call_ring)
  next
    case False
    define k where "k = nb_oargs (d op) + nb_iargs (d op)"
    from wf False have ok: "temps_ok (nb_temps s) st k"
      by (simp add: wf_op_def op_def k_def Let_def)
    from cp False have "propagate_copies s st
        (map int [nb_oargs (d op) ..< nb_oargs (d op) + nb_iargs (d op)]) = Inr st1"
      by (simp add: copy_propagation_def)
    from propagate_copies_temps_ok [OF this inv ok] have ok1: "temps_ok (nb_temps s) st1 k"
      by (auto simp add: k_def)
    have "temps_ok (nb_temps s) (canonicalize op st1) k"
    proof (cases "temp_args op")
      case None
      with ok1 show ?thesis by (simp add: canonicalize_no_temp_args)
    next
      case (Some k')
      with d have "k' = k" by (simp add: defs_ok_def k_def)
      with Some ok1 show ?thesis by (simp add: canonicalize_temps_ok)
    qed
    with inv n p(4) have "ready (nb_temps s) k (canonicalize op st1)"
      by (simp add: ready_def)
    from simplify_ring [OF si False this [unfolded k_def] d] show ?thesis .
  qed
qed

lemma tcg_iterate_Suc:
  "tcg_iterate s d nb_ops (Suc k) st =
     ebind (tcg_iterate s d nb_ops k st) (\<lambda>st'.
       if op_index st' < nb_ops
       then ebind (tcg_step s d st') (\<lambda>st''. Inr (st''\<lparr>op_index := op_index st'' + 1\<rparr>))
       else Inr st')"
proof (induction k arbitrary: st)
  case 0
  show ?case by (simp add: ebind_def split: sum.splits)
next
  case (Suc k)
  show ?case
  proof (cases "op_index st < nb_ops")
    case False
    then show ?thesis by (simp add: ebind_def)
  next
    case True
    show ?thesis
    proof (cases "tcg_step s d st")
      case (Inl e)
      with True show ?thesis by (simp add: ebind_def)
    next
      case (Inr st1)
      with True Suc.IH [of "st1\<lparr>op_index := op_index st1 + 1\<rparr>"] show ?thesis
        by simp
    qed
  qed
qed

lemma tcg_iterate_ring:
  assumes "tcg_iterate s d nb_ops k (entry_state s st0) = Inr st"
    and n: "nb_temps s \<le> 65536" "nb_globals s \<le> nb_temps s" and d: "defs_ok d"
    and wf: "\<forall>j<k. \<forall>stj. tcg_iterate s d nb_ops j (entry_state s st0) = Inr stj
               \<longrightarrow> op_index stj < nb_ops \<longrightarrow> wf_op s d stj"
  shows "ring_inv (nb_temps s) (temps st)"
  using assms(1) wf
proof (induction k arbitrary: st)
  case 0
  then show ?case by (auto simp add: entry_state_def memset_ring_inv)
next
  case (Suc k)
  from Suc.prems(1) obtain stk where
    k: "tcg_iterate s d nb_ops k (entry_state s st0) = Inr stk"
    and last: "(if op_index stk < nb_ops
       then ebind (tcg_step s d stk) (\<lambda>st''. Inr (st''\<lparr>op_index := op_index st'' + 1\<rparr>))
       else Inr stk) = Inr st"
    by (auto simp only: tcg_iterate_Suc ebind_Inr)
  from Suc.prems(2) have "\<forall>j<k. \<forall>stj. tcg_iterate s d nb_ops j (entry_state s st0) = Inr stj
               \<longrightarrow> op_index stj < nb_ops \<longrightarrow> wf_op s d stj"
    by (meson less_SucI)
  from Suc.IH [OF k this] have inv: "ring_inv (nb_temps s) (temps stk)" .
  show ?case
  proof (cases "op_index stk < nb_ops")
    case False
    with last inv show ?thesis by simp
  next
    case True
    with last obtain st'' where step: "tcg_step s d stk = Inr st''"
      and st: "st = st''\<lparr>op_index := op_index st'' + 1\<rparr>"
      by (auto simp add: ebind_Inr)
    from Suc.prems(2) k True have "wf_op s d stk"
      by blast
    from tcg_step_ring [OF step inv n d this] st show ?thesis
      by simp
  qed
qed

section \<open>The rings after every operation\<close>

lemma orbit_in_ring:
  assumes "ring_inv n tab" "unat t < n" "is_copy tab t"
  shows "unat ((next_of tab ^^ m) t) < n \<and> is_copy tab ((next_of tab ^^ m) t)"
proof (induction m)
  case 0
  with assms show ?case by simp
next
  case (Suc m)
  with ring_invD(1,3) [OF assms(1)] show ?case by simp
qed

lemma orbit_cancel:
  assumes "ring_inv n tab" "unat t < n" "is_copy tab t"
    and "(next_of tab ^^ i) t = (next_of tab ^^ (i + k)) t"
  shows "(next_of tab ^^ k) t = t"
  using assms(4)
proof (induction i)
  case 0
  then show ?case by simp
next
  case (Suc i)
  let ?x = "(next_of tab ^^ i) t" and ?y = "(next_of tab ^^ (i + k)) t"
  from Suc.prems have "next_of tab ?x = next_of tab ?y"
    by simp
  then have "prev_of tab (next_of tab ?x) = prev_of tab (next_of tab ?y)"
    by simp
  moreover have "prev_of tab (next_of tab ?x) = ?x" "prev_of tab (next_of tab ?y) = ?y"
    using orbit_in_ring [OF assms(1-3)] ring_invD(6) [OF assms(1)] by blast+
  ultimately have "?x = ?y" by simp
  then show ?case by (rule Suc.IH)
qed

lemma ring_returns:
  assumes "ring_inv n tab" "unat t < n" "is_copy tab t"
  shows "\<exists>m>0. (next_of tab ^^ m) t = t"
proof -
  have "finite (range (\<lambda>i. (next_of tab ^^ i) t))"
    by simp
  then have "\<not> inj (\<lambda>i. (next_of tab ^^ i) t)"
    using finite_imageD infinite_UNIV_nat by blast
  then obtain i j where ij: "i \<noteq> j" "(next_of tab ^^ i) t = (next_of tab ^^ j) t"
    by (auto simp add: inj_on_def)
  then consider "i < j" | "j < i" by linarith
  then show ?thesis
  proof cases
    case 1
    with ij(2) have "(next_of tab ^^ i) t = (next_of tab ^^ (i + (j - i))) t" by simp
    from orbit_cancel [OF assms this] 1 show ?thesis
      by (intro exI [of _ "j - i"]) simp
  next
    case 2
    with ij(2) have "(next_of tab ^^ j) t = (next_of tab ^^ (j + (i - j))) t" by simp
    from orbit_cancel [OF assms this] 2 show ?thesis
      by (intro exI [of _ "i - j"]) simp
  qed
qed

text \<open>
  C4. After any number of operations processed from the entry of the pass, on a stream
  whose operations name temps of the context, every temp \<open>t\<close> in state
  \<^verbatim>\<open>TCG_TEMP_COPY\<close> has symmetric links, \<open>next (prev t) = t\<close> and \<open>prev (next t) = t\<close>;
  walking the \<open>next\<close> links from \<open>t\<close> comes back to \<open>t\<close>; every temp on the walk is
  in state \<^verbatim>\<open>TCG_TEMP_COPY\<close>, so none of them is in state \<^verbatim>\<open>TCG_TEMP_CONST\<close>.
\<close>

theorem rings_stay_well_formed:
  assumes run: "tcg_iterate s d nb_ops k (entry_state s st0) = Inr st"
    and n: "nb_temps s \<le> 65536" "nb_globals s \<le> nb_temps s" and d: "defs_ok d"
    and wf: "\<forall>j<k. \<forall>stj. tcg_iterate s d nb_ops j (entry_state s st0) = Inr stj
               \<longrightarrow> op_index stj < nb_ops \<longrightarrow> wf_op s d stj"
    and t: "unat t < nb_temps s" "state (temps st t) = TCG_TEMP_COPY"
  shows "next_of (temps st) (prev_of (temps st) t) = t
       \<and> prev_of (temps st) (next_of (temps st) t) = t
       \<and> (\<exists>m>0. (next_of (temps st) ^^ m) t = t)
       \<and> (\<forall>m. state (temps st ((next_of (temps st) ^^ m) t)) = TCG_TEMP_COPY)
       \<and> (\<forall>m. state (temps st ((next_of (temps st) ^^ m) t)) \<noteq> TCG_TEMP_CONST)"
proof -
  have inv: "ring_inv (nb_temps s) (temps st)"
    using run n d wf by (rule tcg_iterate_ring)
  have c: "is_copy (temps st) t"
    using t(2) by (simp add: is_copy_def)
  have o: "state (temps st ((next_of (temps st) ^^ m) t)) = TCG_TEMP_COPY" for m
    using orbit_in_ring [OF inv t(1) c, of m] by (simp add: is_copy_def)
  from ring_invD(5,6) [OF inv t(1) c] ring_returns [OF inv t(1) c] o show ?thesis
    by simp
qed

lemma defs_ok_example: "defs_ok example_op_defs"
  unfolding defs_ok_def
proof (intro allI impI)
  fix op k assume "temp_args op = Some k"
  then show "nb_oargs (example_op_defs op) + nb_iargs (example_op_defs op) = k"
    by (cases op) (simp_all add: mk_def_def)
qed

lemma temps_ok_2:
  "temps_ok n st (Suc (Suc 0)) \<longleftrightarrow> unat (arg st 0) < n \<and> unat (arg st 1) < n"
proof -
  have "0 \<le> i \<and> i < 2 \<longleftrightarrow> i = 0 \<or> i = 1" for i :: int
    by arith
  then show ?thesis
    by (auto simp add: temps_ok_def)
qed

definition one_mov :: opt_state where
  "one_mov = example_state [INDEX_op_mov i32] [2, 0]"

theorem rings_stay_well_formed_witness:
  "nb_temps example_context \<le> 65536 \<and> nb_globals example_context \<le> nb_temps example_context
   \<and> defs_ok example_op_defs
   \<and> wf_op example_context example_op_defs (entry_state example_context one_mov)
   \<and> (\<exists>st. tcg_iterate example_context example_op_defs 1 1
               (entry_state example_context one_mov) = Inr st
          \<and> unat (2 :: TCGArg) < nb_temps example_context
          \<and> state (temps st 2) = TCG_TEMP_COPY
          \<and> next_of (temps st) 2 = 0
          \<and> next_of (temps st) (prev_of (temps st) 2) = 2
          \<and> prev_of (temps st) (next_of (temps st) 2) = 2
          \<and> (\<exists>m>0. (next_of (temps st) ^^ m) 2 = 2)
          \<and> (\<forall>m. state (temps st ((next_of (temps st) ^^ m) 2)) = TCG_TEMP_COPY))"
proof -
  have n: "nb_temps example_context \<le> 65536" "nb_globals example_context \<le> nb_temps example_context"
    by (simp_all add: example_context_def)
  have wf0: "wf_op example_context example_op_defs (entry_state example_context one_mov)"
    by (simp add: wf_op_def temps_ok_2 one_mov_def driver_defs)
  then have wf: "\<forall>j<1. \<forall>stj. tcg_iterate example_context example_op_defs 1 j
                       (entry_state example_context one_mov) = Inr stj
               \<longrightarrow> op_index stj < 1 \<longrightarrow> wf_op example_context example_op_defs stj"
    by simp
  have "\<exists>st. tcg_iterate example_context example_op_defs 1 1
               (entry_state example_context one_mov) = Inr st
          \<and> state (temps st 2) = TCG_TEMP_COPY \<and> next_of (temps st) 2 = 0"
    by (simp add: one_mov_def driver_defs)
  then obtain st where
    run: "tcg_iterate example_context example_op_defs 1 1
               (entry_state example_context one_mov) = Inr st"
    and c: "state (temps st 2) = TCG_TEMP_COPY" and o: "next_of (temps st) 2 = 0"
    by blast
  have t: "unat (2 :: TCGArg) < nb_temps example_context"
    by (simp add: example_context_def)
  from rings_stay_well_formed [OF run n defs_ok_example wf t c] n defs_ok_example wf0 run t c o
  show ?thesis
    by blast
qed


section \<open>The copies of a temp are the temps of its ring\<close>

text \<open>
  In a well-formed table the walk of \<^verbatim>\<open>temps_are_copies\<close> comes back to its start, and
  it answers whether the second temp is met on the way: the copies of a temp in state
  \<^verbatim>\<open>TCG_TEMP_COPY\<close> are the temps that following \<^verbatim>\<open>next_copy\<close> reaches from it.
\<close>

lemma copy_loop_walk:
  assumes "(nxt ^^ m) i = temp" "\<And>j. j < m \<Longrightarrow> (nxt ^^ j) i \<noteq> temp"
  shows "copy_loop nxt (\<lambda>x. x = b) temp i
         = Some (if \<exists>j<m. (nxt ^^ j) i = b then Some b else None)"
  using assms
proof (induction m arbitrary: i)
  case 0
  then show ?case
    by (simp add: copy_loop.simps)
next
  case (Suc m)
  from Suc.prems(2) [of 0] have ne: "i \<noteq> temp"
    by simp
  have reach: "(nxt ^^ m) (nxt i) = temp"
    using Suc.prems(1) by (simp add: funpow_swap1)
  have away: "(nxt ^^ j) (nxt i) \<noteq> temp" if "j < m" for j
    using Suc.prems(2) [of "Suc j"] that by (simp add: funpow_swap1)
  note IH = Suc.IH [OF reach away]
  show ?case
  proof (cases "i = b")
    case True
    then have "\<exists>j<Suc m. (nxt ^^ j) i = b"
      by (intro exI [of _ 0]) simp
    with True ne show ?thesis
      by (subst copy_loop.simps) simp
  next
    case False
    have "(\<exists>j<Suc m. (nxt ^^ j) i = b) \<longleftrightarrow> (\<exists>j<m. (nxt ^^ j) (nxt i) = b)"
      using False by (auto simp add: less_Suc_eq_0_disj funpow_swap1)
    with False ne IH show ?thesis
      by (subst copy_loop.simps) simp
  qed
qed

lemma orbit_period:
  assumes "(f ^^ m) a = a"
  shows "(f ^^ (m * q + r)) a = (f ^^ r) a"
proof (induction q)
  case 0
  then show ?case by simp
next
  case (Suc q)
  have "(f ^^ (m * Suc q + r)) a = (f ^^ (m * q + r + m)) a"
    by (simp add: add.commute add.left_commute)
  also have "\<dots> = (f ^^ (m * q + r)) ((f ^^ m) a)"
    by (simp only: funpow_add o_apply)
  finally show ?case
    using assms Suc.IH by simp
qed

lemma temps_are_copies_orbit:
  assumes inv: "ring_inv n tab" and a: "unat a < n"
  shows "temps_are_copies tab a b
         = Inr (a = b \<or> (is_copy tab a \<and> (\<exists>j. (next_of tab ^^ j) a = b)))"
proof (cases "a \<noteq> b \<and> is_copy tab a \<and> is_copy tab b")
  case False
  have "\<not> is_copy tab b \<Longrightarrow> is_copy tab a \<Longrightarrow> (next_of tab ^^ j) a \<noteq> b" for j
    using orbit_in_ring [OF inv a, of j] by auto
  with False show ?thesis
    by (auto simp add: temps_are_copies_def is_copy_def)
next
  case True
  then have ne: "a \<noteq> b" and ca: "is_copy tab a" and cb: "is_copy tab b"
    by simp_all
  let ?f = "next_of tab"
  define m where "m = (LEAST m. 0 < m \<and> (?f ^^ m) a = a)"
  have ex: "\<exists>m. 0 < m \<and> (?f ^^ m) a = a"
    using ring_returns [OF inv a ca] by blast
  have m: "0 < m" "(?f ^^ m) a = a"
    using LeastI_ex [OF ex] by (simp_all add: m_def)
  have least: "(?f ^^ j) a \<noteq> a" if "0 < j" "j < m" for j
    using not_less_Least [of j "\<lambda>m. 0 < m \<and> (?f ^^ m) a = a"] that by (auto simp add: m_def)
  from m(1) obtain k where k: "m = Suc k"
    by (cases m) simp_all
  have reach: "(?f ^^ k) (?f a) = a"
    using m(2) k by (simp add: funpow_swap1)
  have away: "(?f ^^ j) (?f a) \<noteq> a" if "j < k" for j
    using least [of "Suc j"] that k by (simp add: funpow_swap1)
  have "(\<exists>j<k. (?f ^^ j) (?f a) = b) \<longleftrightarrow> (\<exists>j. (?f ^^ j) a = b)"
  proof
    assume "\<exists>j<k. (?f ^^ j) (?f a) = b"
    then obtain j where "(?f ^^ Suc j) a = b"
      by (auto simp add: funpow_swap1)
    then show "\<exists>j. (?f ^^ j) a = b" ..
  next
    assume "\<exists>j. (?f ^^ j) a = b"
    then obtain j where j: "(?f ^^ j) a = b" ..
    have "(?f ^^ (m * (j div m) + j mod m)) a = (?f ^^ (j mod m)) a"
      using m(2) by (rule orbit_period)
    with j have r: "(?f ^^ (j mod m)) a = b"
      by simp
    with ne have "j mod m \<noteq> 0"
      by (auto intro: ccontr)
    then obtain j' where j': "j mod m = Suc j'"
      by (cases "j mod m") simp_all
    moreover have "j mod m < m"
      using m(1) by simp
    ultimately have "j' < k"
      using k by simp
    with r j' show "\<exists>j<k. (?f ^^ j) (?f a) = b"
      by (auto simp add: funpow_swap1)
  qed
  with copy_loop_walk [where nxt = ?f and m = k and i = "?f a" and temp = a and b = b, OF reach away] True show ?thesis
    by (simp add: temps_are_copies_def is_copy_def)
qed


lemma orbit_pair:
  assumes "f src = dst" "f dst = src"
  shows "(\<exists>j. (f ^^ j) src = u) \<longleftrightarrow> u = src \<or> u = dst"
proof
  have "(f ^^ j) src = src \<or> (f ^^ j) src = dst" for j
    using assms by (induction j) auto
  then show "\<exists>j. (f ^^ j) src = u \<Longrightarrow> u = src \<or> u = dst"
    by auto
next
  assume "u = src \<or> u = dst"
  then show "\<exists>j. (f ^^ j) src = u"
  proof
    assume "u = src"
    then have "(f ^^ 0) src = u" by simp
    then show ?thesis ..
  next
    assume "u = dst"
    with assms have "(f ^^ Suc 0) src = u" by simp
    then show ?thesis ..
  qed
qed

lemma orbit_splice:
  assumes f': "\<And>u. f' u = (if u = src then dst else if u = dst then f src else f u)"
    and nd: "\<And>j. (f ^^ j) src \<noteq> dst"
  shows "(\<exists>j. (f' ^^ j) src = u) \<longleftrightarrow> u = dst \<or> (\<exists>j. (f ^^ j) src = u)"
proof
  have ne: "src \<noteq> dst"
    using nd [of 0] by simp
  have fwd: "(f' ^^ j) src = dst \<or> (\<exists>i. (f ^^ i) src = (f' ^^ j) src)" for j
  proof (induction j)
    case 0
    have "(f ^^ 0) src = (f' ^^ 0) src" by simp
    then show ?case by blast
  next
    case (Suc j)
    define x where "x = (f' ^^ j) src"
    have step: "(f' ^^ Suc j) src = f' x"
      by (simp add: x_def)
    consider "x = src" | "x = dst" | "x \<noteq> src" "x \<noteq> dst" by blast
    then show ?case
    proof cases
      case 1
      with f' [of x] step show ?thesis by simp
    next
      case 2
      with f' [of x] step ne have "(f ^^ Suc 0) src = (f' ^^ Suc j) src"
        by simp
      then show ?thesis by blast
    next
      case 3
      with Suc.IH obtain i where "(f ^^ i) src = x"
        unfolding x_def by blast
      with 3 f' [of x] step have "(f ^^ Suc i) src = (f' ^^ Suc j) src"
        by simp
      then show ?thesis by blast
    qed
  qed
  then show "\<exists>j. (f' ^^ j) src = u \<Longrightarrow> u = dst \<or> (\<exists>j. (f ^^ j) src = u)"
    by metis
next
  have ne: "src \<noteq> dst"
    using nd [of 0] by simp
  have one: "(f' ^^ Suc 0) src = dst"
    using f' [of src] by simp
  have two: "(f' ^^ Suc (Suc 0)) src = f src"
    using f' [of src] f' [of dst] ne by simp
  have bwd: "\<exists>i. (f' ^^ i) src = (f ^^ j) src" for j
  proof (induction j)
    case 0
    have "(f' ^^ 0) src = (f ^^ 0) src" by simp
    then show ?case ..
  next
    case (Suc j)
    define x where "x = (f ^^ j) src"
    have step: "(f ^^ Suc j) src = f x"
      by (simp add: x_def)
    from Suc.IH obtain i where i: "(f' ^^ i) src = x"
      unfolding x_def ..
    have xd: "x \<noteq> dst"
      unfolding x_def by (rule nd)
    show ?case
    proof (cases "x = src")
      case True
      with two step have "(f' ^^ Suc (Suc 0)) src = (f ^^ Suc j) src"
        by simp
      then show ?thesis ..
    next
      case False
      have "(f' ^^ Suc i) src = f' x"
        using i by simp
      with False xd f' [of x] step have "(f' ^^ Suc i) src = (f ^^ Suc j) src"
        by simp
      then show ?thesis ..
    qed
  qed
  assume "u = dst \<or> (\<exists>j. (f ^^ j) src = u)"
  then show "\<exists>j. (f' ^^ j) src = u"
  proof
    assume "u = dst"
    with one show ?thesis by blast
  next
    assume "\<exists>j. (f ^^ j) src = u"
    with bwd show ?thesis by metis
  qed
qed

section \<open>Recording a copy\<close>

lemma reset_temp_state:
  "state (reset_temp tab t u) = state (tab u) \<or> state (reset_temp tab t u) = TCG_TEMP_UNDEF"
  by (auto simp add: reset_temp_def Let_def set_state_def set_prev_def set_next_def)

lemma reset_temp_state_kept:
  assumes "u \<noteq> t" "is_copy tab t \<longrightarrow> next_of tab t \<noteq> u"
  shows "state (reset_temp tab t u) = state (tab u)"
  using assms
  by (auto simp add: reset_temp_def Let_def is_copy_def set_state_def set_prev_def set_next_def)

lemma neighbours_are_copies:
  assumes "is_copy tab a" "is_copy tab b" "a \<noteq> b" "next_of tab a = b"
  shows "temps_are_copies tab a b = Inr True"
  using assms by (simp add: temps_are_copies_def is_copy_def copy_loop.simps)

lemma join_copy_members:
  assumes inv: "ring_inv n t1" and n: "n \<le> 65536"
    and dst: "unat dst < n" "\<not> is_copy t1 dst" and src: "unat src < n" "dst \<noteq> src"
  shows "temps_are_copies (join_copy t1 dst src) src u
         = Inr (u = dst \<or> temps_are_copies t1 src u = Inr True)"
proof -
  let ?t = "join_copy t1 dst src"
  have b: "unat dst < 65536" "unat src < 65536"
    using n dst src by simp_all
  have inv': "ring_inv n ?t"
    using inv n dst src by (rule join_copy_ring_inv)
  note after = temps_are_copies_orbit [OF inv' src(1), of u]
  note before = temps_are_copies_orbit [OF inv src(1), of u]
  show ?thesis
  proof (cases "is_copy t1 src")
    case False
    note j = join_copy_fresh [OF False src(2) b]
    have "(\<exists>j. (next_of ?t ^^ j) src = u) \<longleftrightarrow> u = src \<or> u = dst"
    proof (rule orbit_pair)
      show "next_of ?t src = dst" by (simp add: j)
      show "next_of ?t dst = src" using src(2) by (simp add: j)
    qed
    moreover have "is_copy ?t src"
      by (simp add: j)
    ultimately have "temps_are_copies ?t src u = Inr (u = src \<or> u = dst)"
      using after by auto
    moreover have "temps_are_copies t1 src u = Inr (u = src)"
      using before False by auto
    ultimately show ?thesis
      by auto
  next
    case True
    note j = join_copy_splice [OF True src(2) b dst(2) ring_invD(3) [OF inv src(1) True]]
    have nd: "(next_of t1 ^^ j) src \<noteq> dst" for j
      using orbit_in_ring [OF inv src(1) True, of j] dst(2) by auto
    have "(\<exists>j. (next_of ?t ^^ j) src = u) \<longleftrightarrow> u = dst \<or> (\<exists>j. (next_of t1 ^^ j) src = u)"
    proof (rule orbit_splice [where f = "next_of t1" and dst = dst])
      show "next_of ?t v = (if v = src then dst else if v = dst then next_of t1 src
                            else next_of t1 v)" for v
        by (simp add: j)
      show "(next_of t1 ^^ j) src \<noteq> dst" for j
        by (rule nd)
    qed
    moreover have "is_copy ?t src"
      using True by (simp add: j)
    moreover have "\<exists>j. (next_of t1 ^^ j) src = src"
      by (rule exI [of _ 0]) simp
    ultimately have "temps_are_copies ?t src u = Inr (u = dst \<or> (\<exists>j. (next_of t1 ^^ j) src = u))"
      using after by auto
    moreover have "temps_are_copies t1 src u = Inr (\<exists>j. (next_of t1 ^^ j) src = u)"
      using before True \<open>\<exists>j. (next_of t1 ^^ j) src = src\<close> by auto
    ultimately show ?thesis
      by auto
  qed
qed


text \<open>
  What a call of \<^verbatim>\<open>tcg_opt_gen_mov\<close> does when its assertion holds, at a call as the
  driver makes it (after the test that \<open>dst\<close> and \<open>src\<close> are not copies yet): it
  returns, with \<open>dst\<close> and \<open>src\<close> written at the two output positions, and the rings
  stay well-formed. If the declared types of \<open>src\<close> and \<open>dst\<close> are equal, \<open>dst\<close> has
  been linked between \<open>src\<close> and its former successor, and the copies of \<open>src\<close> are
  \<open>dst\<close> and those it had when \<open>dst\<close> had been reset. If the types differ, the table is
  the one the reset of \<open>dst\<close> left: \<open>dst\<close> is \<^verbatim>\<open>TCG_TEMP_UNDEF\<close>, the state of \<open>src\<close> is
  the one it had, and the two are not copies.
\<close>

lemma tcg_opt_gen_mov_joins_ring:
  assumes inv: "ring_inv n (temps st)" and n: "n \<le> 65536"
    and dst: "unat dst < n" and src: "unat src < n"
    and nc: "temps_are_copies (temps st) dst src = Inr False"
    and ns: "state (temps st src) \<noteq> TCG_TEMP_CONST"
  shows "\<exists>st'. tcg_opt_gen_mov s st g dst src = Inr st'
           \<and> args_buf st' (gen_args st + g) = dst \<and> args_buf st' (gen_args st + g + 1) = src
           \<and> ring_inv n (temps st')
           \<and> (type (s_temps s src) = type (s_temps s dst) \<longrightarrow>
                state (temps st' dst) = TCG_TEMP_COPY \<and> state (temps st' src) = TCG_TEMP_COPY
                \<and> next_of (temps st') src = dst \<and> prev_of (temps st') dst = src
                \<and> next_of (temps st') dst
                    = (if is_copy (reset_temp (temps st) dst) src
                       then next_of (reset_temp (temps st) dst) src else src)
                \<and> prev_of (temps st') (next_of (temps st') dst) = dst
                \<and> (\<forall>u. temps_are_copies (temps st') src u
                      = Inr (u = dst \<or> temps_are_copies (reset_temp (temps st) dst) src u = Inr True)))
           \<and> (type (s_temps s src) \<noteq> type (s_temps s dst) \<longrightarrow>
                temps st' = reset_temp (temps st) dst
                \<and> temps_are_copies (temps st') src dst = Inr False
                \<and> state (temps st' dst) = TCG_TEMP_UNDEF
                \<and> state (temps st' src) = state (temps st src))"
proof -
  define t1 where "t1 = reset_temp (temps st) dst"
  have ne: "dst \<noteq> src"
    using nc by (rule temps_are_copies_False)
  have b: "unat dst < 65536" "unat src < 65536"
    using n dst src by simp_all
  have inv1: "ring_inv n t1"
    unfolding t1_def using inv dst by (rule reset_temp_ring_inv)
  have nd: "\<not> is_copy t1 dst"
    unfolding t1_def by (rule reset_temp_not_copy_after)
  have "state (t1 src) \<noteq> TCG_TEMP_CONST"
    using reset_temp_state [of "temps st" dst src] ns by (auto simp add: t1_def)
  then obtain st' where
    r: "tcg_opt_gen_mov s st g dst src = Inr st'"
    and out: "args_buf st' (gen_args st + g) = dst" "args_buf st' (gen_args st + g + 1) = src"
    by (auto simp add: tcg_opt_gen_mov_def Let_def t1_def set_gen_arg_def)
  note t = tcg_opt_gen_mov_temps(1) [OF r, folded t1_def]
  have inv': "ring_inv n (temps st')"
    using r inv n dst src ne by (rule tcg_opt_gen_mov_ring)
  have same: "state (temps st' dst) = TCG_TEMP_COPY \<and> state (temps st' src) = TCG_TEMP_COPY
        \<and> next_of (temps st') src = dst \<and> prev_of (temps st') dst = src
        \<and> next_of (temps st') dst = (if is_copy t1 src then next_of t1 src else src)
        \<and> prev_of (temps st') (next_of (temps st') dst) = dst
        \<and> (\<forall>u. temps_are_copies (temps st') src u
              = Inr (u = dst \<or> temps_are_copies t1 src u = Inr True))"
    if ty: "type (s_temps s src) = type (s_temps s dst)"
  proof -
    from t ty have t': "temps st' = join_copy t1 dst src"
      by simp
    have j: "is_copy (temps st') src \<and> is_copy (temps st') dst
      \<and> next_of (temps st') src = dst \<and> prev_of (temps st') dst = src
      \<and> next_of (temps st') dst = (if is_copy t1 src then next_of t1 src else src)
      \<and> prev_of (temps st') (next_of (temps st') dst) = dst"
    proof (cases "is_copy t1 src")
      case False
      note f = join_copy_fresh [OF False ne b]
      from t' f False ne show ?thesis
        by simp
    next
      case True
      note c = ring_invD(3) [OF inv1 src True]
      from c nd have "next_of t1 src \<noteq> dst"
        by auto
      moreover note f = join_copy_splice [OF True ne b nd c]
      ultimately show ?thesis
        using t' True ne by simp
    qed
    moreover have "temps_are_copies (temps st') src u
              = Inr (u = dst \<or> temps_are_copies t1 src u = Inr True)" for u
      unfolding t' using inv1 n dst nd src ne by (rule join_copy_members)
    ultimately show ?thesis
      unfolding is_copy_def by blast
  qed
  have differ: "temps st' = t1
        \<and> temps_are_copies (temps st') src dst = Inr False
        \<and> state (temps st' dst) = TCG_TEMP_UNDEF
        \<and> state (temps st' src) = state (temps st src)"
    if ty: "type (s_temps s src) \<noteq> type (s_temps s dst)"
  proof -
    from t ty have t': "temps st' = t1" by simp
    have u: "state (t1 dst) = TCG_TEMP_UNDEF"
      by (simp add: t1_def reset_temp_def Let_def set_state_def)
    have "next_of (temps st) dst \<noteq> src" if c: "is_copy (temps st) dst"
    proof
      assume e: "next_of (temps st) dst = src"
      with ring_invD(3) [OF inv dst c] have "is_copy (temps st) src" by simp
      from neighbours_are_copies [OF c this ne e] nc show False by simp
    qed
    with ne have "state (t1 src) = state (temps st src)"
      unfolding t1_def by (intro reset_temp_state_kept) auto
    with u ne t' show ?thesis
      by (simp add: temps_are_copies_def)
  qed
  from r out inv' same differ show ?thesis
    unfolding t1_def by blast
qed


text \<open>
  A table of eight temps where temp 3 is the only 64-bit one: moving temp 2 to temp 3
  records nothing, moving temp 2 to temp 4 makes them copies.
\<close>

definition mixed_context :: TCGContext where
  "mixed_context =
     \<lparr>nb_temps = 8, nb_globals = 2,
      s_temps = (\<lambda>t. \<lparr>type = (if t = 3 then TCG_TYPE_I64 else TCG_TYPE_I32),
                      temp_local = False\<rparr>)\<rparr>"

lemma tcg_opt_gen_mov_joins_ring_example:
  "(\<exists>st'. tcg_opt_gen_mov mixed_context (example_state [] []) 0 3 2 = Inr st'
          \<and> args_buf st' 0 = 3 \<and> args_buf st' 1 = 2
          \<and> temps_are_copies (temps st') 2 3 = Inr False
          \<and> state (temps st' 3) = TCG_TEMP_UNDEF
          \<and> state (temps st' 2) = TCG_TEMP_UNDEF)
   \<and> (\<exists>st'. tcg_opt_gen_mov mixed_context (example_state [] []) 0 4 2 = Inr st'
          \<and> args_buf st' 0 = 4 \<and> args_buf st' 1 = 2
          \<and> temps_are_copies (temps st') 2 4 = Inr True
          \<and> next_of (temps st') 2 = 4 \<and> next_of (temps st') 4 = 2)"
proof -
  let ?st = "example_state [] []"
  have inv: "ring_inv 8 (temps ?st)"
    by (simp add: ring_inv_def is_copy_def example_state_def)
  have n: "(8 :: nat) \<le> 65536" and b: "unat (3 :: TCGArg) < 8" "unat (4 :: TCGArg) < 8"
    "unat (2 :: TCGArg) < 8"
    by simp_all
  have nc: "temps_are_copies (temps ?st) 3 2 = Inr False"
    "temps_are_copies (temps ?st) 4 2 = Inr False"
    and ns: "state (temps ?st 2) \<noteq> TCG_TEMP_CONST"
    by (simp_all add: temps_are_copies_def example_state_def)
  have ty: "type (s_temps mixed_context 2) \<noteq> type (s_temps mixed_context 3)"
    "type (s_temps mixed_context 2) = type (s_temps mixed_context 4)"
    and g: "gen_args ?st = 0"
    and u: "\<not> is_copy (reset_temp (temps ?st) 4) 2" "state (temps ?st 2) = TCG_TEMP_UNDEF"
    by (simp_all add: mixed_context_def example_state_def reset_temp_def Let_def is_copy_def
          set_state_def)
  from tcg_opt_gen_mov_joins_ring [OF inv n b(1) b(3) nc(1) ns, of mixed_context 0]
  obtain st1 where 1: "tcg_opt_gen_mov mixed_context ?st 0 3 2 = Inr st1"
    "args_buf st1 (gen_args ?st + 0) = 3" "args_buf st1 (gen_args ?st + 0 + 1) = 2"
    "temps_are_copies (temps st1) 2 3 = Inr False"
    "state (temps st1 3) = TCG_TEMP_UNDEF" "state (temps st1 2) = state (temps ?st 2)"
    using ty(1) by blast
  from tcg_opt_gen_mov_joins_ring [OF inv n b(2) b(3) nc(2) ns, of mixed_context 0]
  obtain st2 where 2: "tcg_opt_gen_mov mixed_context ?st 0 4 2 = Inr st2"
    "args_buf st2 (gen_args ?st + 0) = 4" "args_buf st2 (gen_args ?st + 0 + 1) = 2"
    "next_of (temps st2) 2 = 4"
    "next_of (temps st2) 4
       = (if is_copy (reset_temp (temps ?st) 4) 2 then next_of (reset_temp (temps ?st) 4) 2 else 2)"
    "\<forall>u. temps_are_copies (temps st2) 2 u
       = Inr (u = 4 \<or> temps_are_copies (reset_temp (temps ?st) 4) 2 u = Inr True)"
    using ty(2) by blast
  from 2(6) have "temps_are_copies (temps st2) 2 4 = Inr True"
    by simp
  with 1 2 g u show ?thesis
    by simp
qed


end
